theory Spec2Isabelle
  imports Main
begin

section \<open>Data model\<close>

text \<open>
  The embedding follows \<^verbatim>\<open>src/allocationService.js\<close>, with \<^verbatim>\<open>config.js\<close> and
  \<^verbatim>\<open>db.js\<close>. Conventions:

  \<^item> Identifiers are what \<^verbatim>\<open>nanoid()\<close> returns. The code only compares them, so an
    identifier is a natural number and \<^verbatim>\<open>nanoid()\<close> is a counter kept beside the three
    collections (\<open>nanoid_next\<close>): every call returns a value never returned before.
  \<^item> A time of day \<^verbatim>\<open>'HH:mm'\<close> is its minute of the day (\<^verbatim>\<open>'09:15'\<close> is 555). A dayjs
    instant built from \<^verbatim>\<open>`${date}T${time}`\<close> is the number of minutes since midnight of
    that date; \<^verbatim>\<open>add(n, 'minute')\<close> is addition, \<^verbatim>\<open>isBefore\<close> is \<open><\<close>, and
    \<^verbatim>\<open>format('HH:mm')\<close> drops the day (\<open>mod 1440\<close>). On zero-padded \<^verbatim>\<open>'HH:mm'\<close> strings
    \<^verbatim>\<open>localeCompare\<close> orders as the minutes of the day do. Local time runs without a
    daylight-saving shift inside the working window.
  \<^item> \<^verbatim>\<open>slotDurationMinutes\<close>, \<^verbatim>\<open>maxPatientsPerSlot\<close> and \<^verbatim>\<open>capacity\<close> are natural numbers.
  \<^item> The field \<^verbatim>\<open>createdAt\<close> of a token (the wall clock, read by no operation) is left out.
  \<^item> A token object is its position in \<^verbatim>\<open>db.data.tokens\<close>: the arrays that
    \<^verbatim>\<open>getTokensForSlot\<close> returns hold positions, and an assignment to a field of such an
    object updates the list at that position.
\<close>

type_synonym ident = nat
type_synonym hhmm = nat

record doctor =
  d_id :: ident
  d_name :: string
  d_startTime :: hhmm
  d_endTime :: hhmm
  slotDurationMinutes :: nat
  maxPatientsPerSlot :: nat

record slot =
  s_id :: ident
  s_doctorId :: ident
  s_date :: string
  s_startTime :: hhmm
  s_endTime :: hhmm
  capacity :: nat

datatype status = SCHEDULED | CANCELLED | NO_SHOW

record token =
  t_id :: ident
  t_doctorId :: ident
  t_slotId :: ident
  t_date :: string
  patientName :: string
  source :: string
  priorityScore :: int
  status :: status

record store =
  doctors :: "doctor list"
  slots :: "slot list"
  tokens :: "token list"
  nanoid_next :: ident

text \<open>The argument object of \<^verbatim>\<open>allocateToken\<close>; an absent \<^verbatim>\<open>source\<close> is \<open>None\<close>.\<close>

record request =
  r_doctorId :: ident
  r_date :: string
  r_source :: "string option"
  r_patientName :: string
  r_emergency :: bool

datatype error = InvalidTokenSource | DoctorNotFound

section \<open>Configuration\<close>

definition priorities :: "(string \<times> int) list" where
  "priorities =
     [(''EMERGENCY'', 5), (''PAID'', 4), (''FOLLOW_UP'', 3), (''ONLINE'', 2), (''WALK_IN'', 1)]"

definition tokenSources :: "string list" where
  "tokenSources = [''EMERGENCY'', ''PAID'', ''FOLLOW_UP'', ''ONLINE'', ''WALK_IN'']"

section \<open>Slot generation\<close>

definition format_HHmm :: "nat \<Rightarrow> hhmm" where
  "format_HHmm t = t mod 1440"

text \<open>The object pushed in one iteration of the loop of \<^verbatim>\<open>generateSlotsForDay\<close>.\<close>

definition newSlot :: "doctor \<Rightarrow> string \<Rightarrow> ident \<Rightarrow> nat \<Rightarrow> slot" where
  "newSlot doctor dateStr i current =
     \<lparr>s_id = i, s_doctorId = d_id doctor, s_date = dateStr,
      s_startTime = format_HHmm current,
      s_endTime = format_HHmm (current + slotDurationMinutes doctor),
      capacity = maxPatientsPerSlot doctor\<rparr>"

text \<open>
  The \<^verbatim>\<open>while (current.isBefore(end))\<close> loop. It runs forever when the duration is 0 and
  the window is not empty, so it is a partial function: not returning is \<open>None\<close>.
\<close>

partial_function (option) slotLoop ::
  "doctor \<Rightarrow> string \<Rightarrow> nat \<Rightarrow> nat \<Rightarrow> ident \<Rightarrow> slot list \<Rightarrow> (slot list \<times> ident) option" where
  "slotLoop doctor dateStr end current n acc =
     (if current < end
      then slotLoop doctor dateStr end (current + slotDurationMinutes doctor) (Suc n)
             (acc @ [newSlot doctor dateStr n current])
      else Some (acc, n))"

definition generateSlotsForDay ::
  "store \<Rightarrow> doctor \<Rightarrow> string \<Rightarrow> (slot list \<times> store) option" where
  "generateSlotsForDay st doctor date =
     (let existing = filter (\<lambda>s. s_doctorId s = d_id doctor \<and> s_date s = date) (slots st)
      in if length existing > 0 then Some (existing, st)
         else (case slotLoop doctor date (d_endTime doctor) (d_startTime doctor)
                      (nanoid_next st) [] of
                 None \<Rightarrow> None
               | Some (new, n) \<Rightarrow>
                   Some (new, st\<lparr>slots := slots st @ new, nanoid_next := n\<rparr>)))"

section \<open>Lookups\<close>

definition getPriorityScore :: "string \<Rightarrow> int" where
  "getPriorityScore src = (case map_of priorities src of Some p \<Rightarrow> p | None \<Rightarrow> 0)"

definition getDoctorById :: "store \<Rightarrow> ident \<Rightarrow> doctor option" where
  "getDoctorById st doctorId = find (\<lambda>d. d_id d = doctorId) (doctors st)"

text \<open>\<^verbatim>\<open>Array.prototype.sort\<close> is stable, as \<open>sort_key\<close> is.\<close>

definition getSlotsForDoctorDay :: "store \<Rightarrow> ident \<Rightarrow> string \<Rightarrow> slot list" where
  "getSlotsForDoctorDay st doctorId date =
     sort_key s_startTime
       (filter (\<lambda>s. s_doctorId s = doctorId \<and> s_date s = date) (slots st))"

text \<open>
  The SCHEDULED tokens of a slot, as positions in \<open>tokens st\<close>, by descending score
  (the comparator \<^verbatim>\<open>b.priorityScore - a.priorityScore\<close>).
\<close>

definition getTokensForSlot :: "store \<Rightarrow> ident \<Rightarrow> nat list" where
  "getTokensForSlot st slotId =
     sort_key (\<lambda>i. - priorityScore (tokens st ! i))
       (filter (\<lambda>i. t_slotId (tokens st ! i) = slotId \<and> status (tokens st ! i) = SCHEDULED)
          [0..<length (tokens st)])"

text \<open>\<^verbatim>\<open>findIndex\<close> of JavaScript; \<open>None\<close> is -1.\<close>

fun findIndex :: "('a \<Rightarrow> bool) \<Rightarrow> 'a list \<Rightarrow> nat option" where
  "findIndex P [] = None"
| "findIndex P (x # xs) = (if P x then Some 0 else map_option Suc (findIndex P xs))"

text \<open>An assignment to a field of the token object at position \<open>i\<close>.\<close>

definition updateToken :: "store \<Rightarrow> nat \<Rightarrow> (token \<Rightarrow> token) \<Rightarrow> store" where
  "updateToken st i f = st\<lparr>tokens := (tokens st)[i := f (tokens st ! i)]\<rparr>"

section \<open>Allocation\<close>

definition createTokenInSlot ::
  "store \<Rightarrow> request \<Rightarrow> string \<Rightarrow> int \<Rightarrow> slot \<Rightarrow> token \<times> store" where
  "createTokenInSlot st r normalizedSource score sl =
     (let tok = \<lparr>t_id = nanoid_next st, t_doctorId = r_doctorId r, t_slotId = s_id sl,
                 t_date = r_date r, patientName = r_patientName r,
                 source = normalizedSource, priorityScore = score, status = SCHEDULED\<rparr>
      in (tok, st\<lparr>tokens := tokens st @ [tok], nanoid_next := Suc (nanoid_next st)\<rparr>))"

text \<open>
  The first slot of a list with fewer SCHEDULED tokens than its capacity: the first loop
  of \<^verbatim>\<open>allocateToken\<close>, and the inner loop over the later slots of its emergency path.
\<close>

fun firstFree :: "store \<Rightarrow> slot list \<Rightarrow> slot option" where
  "firstFree st [] = None"
| "firstFree st (sl # rest) =
     (if length (getTokensForSlot st (s_id sl)) < capacity sl then Some sl
      else firstFree st rest)"

text \<open>
  The emergency path, the loop over \<open>i\<close>: the argument is \<open>slots[i..]\<close>, so that the tail is
  the list of the later slots \<open>slots[i+1..]\<close>.
\<close>

fun emergencyPass ::
  "store \<Rightarrow> request \<Rightarrow> string \<Rightarrow> int \<Rightarrow> slot list \<Rightarrow> (token \<times> store) option" where
  "emergencyPass st r src score [] = None"
| "emergencyPass st r src score (sl # later) =
     (let scheduled = getTokensForSlot st (s_id sl) in
      if length scheduled < capacity sl then Some (createTokenInSlot st r src score sl)
      else if scheduled = [] \<or> priorityScore (tokens st ! last scheduled) \<ge> score
      then emergencyPass st r src score later
      else (case firstFree st later of
              Some laterSlot \<Rightarrow>
                Some (createTokenInSlot
                        (updateToken st (last scheduled) (\<lambda>t. t\<lparr>t_slotId := s_id laterSlot\<rparr>))
                        r src score sl)
            | None \<Rightarrow> emergencyPass st r src score later))"

text \<open>
  A thrown \<^verbatim>\<open>Error\<close> is \<open>Inl\<close>, a returned token \<open>Inr (Some tok)\<close>, a returned \<^verbatim>\<open>null\<close>
  \<open>Inr None\<close>; the second component is the store when the call ends.
\<close>

definition allocateToken ::
  "store \<Rightarrow> request \<Rightarrow> ((error + token option) \<times> store) option" where
  "allocateToken st r =
     (case (if r_emergency r then Some ''EMERGENCY'' else r_source r) of
        None \<Rightarrow> Some (Inl InvalidTokenSource, st)
      | Some normalizedSource \<Rightarrow>
          if normalizedSource \<notin> set tokenSources then Some (Inl InvalidTokenSource, st)
          else (case getDoctorById st (r_doctorId r) of
                  None \<Rightarrow> Some (Inl DoctorNotFound, st)
                | Some doctor \<Rightarrow>
                   (case generateSlotsForDay st doctor (r_date r) of
                      None \<Rightarrow> None
                    | Some (generated, st1) \<Rightarrow>
                       (let daySlots = getSlotsForDoctorDay st1 (r_doctorId r) (r_date r);
                            score = getPriorityScore normalizedSource
                        in case firstFree st1 daySlots of
                             Some sl \<Rightarrow>
                               (case createTokenInSlot st1 r normalizedSource score sl of
                                  (tok, st2) \<Rightarrow> Some (Inr (Some tok), st2))
                           | None \<Rightarrow>
                               if \<not> r_emergency r then Some (Inr None, st1)
                               else (case emergencyPass st1 r normalizedSource score daySlots of
                                       Some (tok, st2) \<Rightarrow> Some (Inr (Some tok), st2)
                                     | None \<Rightarrow> Some (Inr None, st1))))))"

section \<open>Cancellation, no-show and rebalancing\<close>

text \<open>The loop of \<^verbatim>\<open>rebalanceAfterFreeSlot\<close> over the slots after the freed one.\<close>

fun rebalanceLoop :: "store \<Rightarrow> ident \<Rightarrow> slot list \<Rightarrow> store" where
  "rebalanceLoop st freedSlotId [] = st"
| "rebalanceLoop st freedSlotId (laterSlot # rest) =
     (case getTokensForSlot st (s_id laterSlot) of
        [] \<Rightarrow> rebalanceLoop st freedSlotId rest
      | candidate # others \<Rightarrow> updateToken st candidate (\<lambda>t. t\<lparr>t_slotId := freedSlotId\<rparr>))"

definition rebalanceAfterFreeSlot :: "store \<Rightarrow> ident \<Rightarrow> string \<Rightarrow> ident \<Rightarrow> store" where
  "rebalanceAfterFreeSlot st doctorId date freedSlotId =
     (let daySlots = getSlotsForDoctorDay st doctorId date
      in case findIndex (\<lambda>s. s_id s = freedSlotId) daySlots of
           None \<Rightarrow> st
         | Some freedIndex \<Rightarrow> rebalanceLoop st freedSlotId (drop (freedIndex + 1) daySlots))"

text \<open>
  \<^verbatim>\<open>cancelToken\<close> and \<^verbatim>\<open>markNoShow\<close> differ in the status they write only; \<open>retire\<close> is
  their common body. The token returned is the object found, read after the rebalancing.
\<close>

definition retire :: "status \<Rightarrow> store \<Rightarrow> ident \<Rightarrow> token option \<times> store" where
  "retire newStatus st tokenId =
     (case findIndex (\<lambda>t. t_id t = tokenId) (tokens st) of
        None \<Rightarrow> (None, st)
      | Some i \<Rightarrow>
          if status (tokens st ! i) \<noteq> SCHEDULED then (None, st)
          else (let st1 = updateToken st i (\<lambda>t. t\<lparr>status := newStatus\<rparr>);
                    tok = tokens st1 ! i;
                    st2 = rebalanceAfterFreeSlot st1 (t_doctorId tok) (t_date tok) (t_slotId tok)
                in (Some (tokens st2 ! i), st2)))"

definition cancelToken :: "store \<Rightarrow> ident \<Rightarrow> token option \<times> store" where
  "cancelToken st tokenId = retire CANCELLED st tokenId"

definition markNoShow :: "store \<Rightarrow> ident \<Rightarrow> token option \<times> store" where
  "markNoShow st tokenId = retire NO_SHOW st tokenId"

section \<open>Schedule\<close>

record tokenView =
  tv_id :: ident
  tv_patientName :: string
  tv_source :: string
  tv_priorityScore :: int
  tv_status :: status

record slotView =
  v_slotId :: ident
  v_startTime :: hhmm
  v_endTime :: hhmm
  v_capacity :: nat
  booked :: nat
  v_tokens :: "tokenView list"

definition getSchedule :: "store \<Rightarrow> ident \<Rightarrow> string \<Rightarrow> slotView list" where
  "getSchedule st doctorId date =
     map (\<lambda>sl. let scheduled = getTokensForSlot st (s_id sl) in
            \<lparr>v_slotId = s_id sl, v_startTime = s_startTime sl, v_endTime = s_endTime sl,
             v_capacity = capacity sl, booked = length scheduled,
             v_tokens = map (\<lambda>i. let t = tokens st ! i in
                               \<lparr>tv_id = t_id t, tv_patientName = patientName t,
                                tv_source = source t, tv_priorityScore = priorityScore t,
                                tv_status = status t\<rparr>) scheduled\<rparr>)
         (getSlotsForDoctorDay st doctorId date)"

section \<open>Notions used in the statements\<close>

text \<open>The number of iterations of the loop from \<open>current\<close>: the ceiling of the window over the duration.\<close>

definition slotCount :: "nat \<Rightarrow> nat \<Rightarrow> nat \<Rightarrow> nat" where
  "slotCount end current dur = (end - current + dur - 1) div dur"

text \<open>The slots a first generation pushes when the next identifier is \<open>n\<close>.\<close>

definition freshSlots :: "doctor \<Rightarrow> string \<Rightarrow> ident \<Rightarrow> slot list" where
  "freshSlots doctor date n =
     map (\<lambda>k. newSlot doctor date (n + k) (d_startTime doctor + k * slotDurationMinutes doctor))
       [0..<slotCount (d_endTime doctor) (d_startTime doctor) (slotDurationMinutes doctor)]"

text \<open>The slots of a doctor and a date, in storage order.\<close>

definition existingSlots :: "store \<Rightarrow> ident \<Rightarrow> string \<Rightarrow> slot list" where
  "existingSlots st doctorId date =
     filter (\<lambda>s. s_doctorId s = doctorId \<and> s_date s = date) (slots st)"

text \<open>The number of SCHEDULED tokens that refer to a slot identifier.\<close>

definition scheduledCount :: "store \<Rightarrow> ident \<Rightarrow> nat" where
  "scheduledCount st slotId =
     length (filter (\<lambda>t. t_slotId t = slotId \<and> status t = SCHEDULED) (tokens st))"

text \<open>A slot has free capacity when fewer SCHEDULED tokens refer to it than its capacity.\<close>

definition hasFree :: "store \<Rightarrow> slot \<Rightarrow> bool" where
  "hasFree st sl = (scheduledCount st (s_id sl) < capacity sl)"

text \<open>The effective source of a request (\<^verbatim>\<open>normalizedSource\<close>).\<close>

definition effectiveSource :: "request \<Rightarrow> string option" where
  "effectiveSource r = (if r_emergency r then Some ''EMERGENCY'' else r_source r)"

text \<open>
  Position \<open>c\<close> holds the highest-priority SCHEDULED token of a slot: no SCHEDULED token of
  the slot has a greater score, and none of the same score is stored before it.
\<close>

definition isTop :: "store \<Rightarrow> ident \<Rightarrow> nat \<Rightarrow> bool" where
  "isTop st slotId c =
     (c < length (tokens st) \<and> t_slotId (tokens st ! c) = slotId
      \<and> status (tokens st ! c) = SCHEDULED
      \<and> (\<forall>i < length (tokens st).
            t_slotId (tokens st ! i) = slotId \<and> status (tokens st ! i) = SCHEDULED \<longrightarrow>
            priorityScore (tokens st ! i) \<le> priorityScore (tokens st ! c)
            \<and> (priorityScore (tokens st ! i) = priorityScore (tokens st ! c) \<longrightarrow> c \<le> i)))"

text \<open>
  Position \<open>c\<close> holds a lowest-priority SCHEDULED token of a slot: no SCHEDULED token of the
  slot has a smaller score.
\<close>

definition isLowest :: "store \<Rightarrow> ident \<Rightarrow> nat \<Rightarrow> bool" where
  "isLowest st slotId c =
     (c < length (tokens st) \<and> t_slotId (tokens st ! c) = slotId
      \<and> status (tokens st ! c) = SCHEDULED
      \<and> (\<forall>i < length (tokens st).
            t_slotId (tokens st ! i) = slotId \<and> status (tokens st ! i) = SCHEDULED \<longrightarrow>
            priorityScore (tokens st ! c) \<le> priorityScore (tokens st ! i)))"

text \<open>
  A list is the chronological slot sequence of a doctor and a date in a store: it is in
  ascending order of start time, its slots are exactly the slots of the store with that
  doctor and date, and slots of the same start time keep their storage order (each
  occurs as often as in the store).
\<close>

definition isDaySequence :: "store \<Rightarrow> ident \<Rightarrow> string \<Rightarrow> slot list \<Rightarrow> bool" where
  "isDaySequence st doctorId date day =
     (sorted (map s_startTime day)
      \<and> set day = {s \<in> set (slots st). s_doctorId s = doctorId \<and> s_date s = date}
      \<and> (\<forall>t. filter (\<lambda>s. s_startTime s = t) day =
               filter (\<lambda>s. s_startTime s = t)
                 (filter (\<lambda>s. s_doctorId s = doctorId \<and> s_date s = date) (slots st))))"

section \<open>Reachable stores\<close>

text \<open>
  The stores the operations can produce. The start is any store without slots and
  tokens (the empty store, with or without doctors). The host owns the collection of
  doctors and may replace it, and may draw identifiers. \<^verbatim>\<open>getSchedule\<close> returns no store: it
  is a function of the store it reads.
\<close>

inductive reachable :: "store \<Rightarrow> bool" where
  initial: "slots st = [] \<Longrightarrow> tokens st = [] \<Longrightarrow> reachable st"
| host: "reachable st \<Longrightarrow> nanoid_next st \<le> n \<Longrightarrow>
           reachable (st\<lparr>doctors := ds, nanoid_next := n\<rparr>)"
| generate: "reachable st \<Longrightarrow> generateSlotsForDay st doctor date = Some (generated, st') \<Longrightarrow>
           reachable st'"
| allocate: "reachable st \<Longrightarrow> allocateToken st r = Some (res, st') \<Longrightarrow> reachable st'"
| cancel: "reachable st \<Longrightarrow> cancelToken st tokenId = (cancelled, st') \<Longrightarrow> reachable st'"
| noShow: "reachable st \<Longrightarrow> markNoShow st tokenId = (marked, st') \<Longrightarrow> reachable st'"

text \<open>
  The invariant of the reachable stores: slot identifiers are distinct and issued, tokens
  refer to issued identifiers, and no slot holds more SCHEDULED tokens than its capacity.
\<close>

definition storeInv :: "store \<Rightarrow> bool" where
  "storeInv st =
     (distinct (map s_id (slots st))
      \<and> (\<forall>s\<in>set (slots st). s_id s < nanoid_next st)
      \<and> (\<forall>t\<in>set (tokens st). t_slotId t < nanoid_next st)
      \<and> (\<forall>s\<in>set (slots st). scheduledCount st (s_id s) \<le> capacity s))"

section \<open>Example data\<close>

text \<open>
  Doctor A works 09:00 to 09:30 in slots of 15 minutes, one patient a slot; doctor B works
  09:00 to 09:40, a window that 15 minutes do not divide.
\<close>

definition day0 :: string where
  "day0 = ''2024-01-01''"

definition docA :: doctor where
  "docA = \<lparr>d_id = 1, d_name = ''Dr. A'', d_startTime = 540, d_endTime = 570,
            slotDurationMinutes = 15, maxPatientsPerSlot = 1\<rparr>"

definition docB :: doctor where
  "docB = \<lparr>d_id = 2, d_name = ''Dr. B'', d_startTime = 540, d_endTime = 580,
            slotDurationMinutes = 15, maxPatientsPerSlot = 1\<rparr>"

definition store0 :: store where
  "store0 = \<lparr>doctors = [docA, docB], slots = [], tokens = [], nanoid_next = 10\<rparr>"

definition slotA1 :: slot where
  "slotA1 = \<lparr>s_id = 10, s_doctorId = 1, s_date = day0, s_startTime = 540, s_endTime = 555,
              capacity = 1\<rparr>"

definition slotA2 :: slot where
  "slotA2 = \<lparr>s_id = 11, s_doctorId = 1, s_date = day0, s_startTime = 555, s_endTime = 570,
              capacity = 1\<rparr>"

definition storeA :: store where
  "storeA = \<lparr>doctors = [docA, docB], slots = [slotA1, slotA2], tokens = [], nanoid_next = 12\<rparr>"

definition slotB1 :: slot where
  "slotB1 = \<lparr>s_id = 10, s_doctorId = 2, s_date = day0, s_startTime = 540, s_endTime = 555,
              capacity = 1\<rparr>"

definition slotB2 :: slot where
  "slotB2 = \<lparr>s_id = 11, s_doctorId = 2, s_date = day0, s_startTime = 555, s_endTime = 570,
              capacity = 1\<rparr>"

definition slotB3 :: slot where
  "slotB3 = \<lparr>s_id = 12, s_doctorId = 2, s_date = day0, s_startTime = 570, s_endTime = 585,
              capacity = 1\<rparr>"

definition storeB :: store where
  "storeB = \<lparr>doctors = [docA, docB], slots = [slotB1, slotB2, slotB3], tokens = [],
              nanoid_next = 13\<rparr>"

text \<open>Requests for doctor A: a walk-in, an unknown source, and an emergency with an unknown source.\<close>

definition reqWalkIn :: request where
  "reqWalkIn = \<lparr>r_doctorId = 1, r_date = day0, r_source = Some ''WALK_IN'',
                 r_patientName = ''W'', r_emergency = False\<rparr>"

definition reqBogus :: request where
  "reqBogus = \<lparr>r_doctorId = 1, r_date = day0, r_source = Some ''BOGUS'',
                r_patientName = ''X'', r_emergency = False\<rparr>"

definition reqEmergency :: request where
  "reqEmergency = \<lparr>r_doctorId = 1, r_date = day0, r_source = Some ''BOGUS'',
                    r_patientName = ''E'', r_emergency = True\<rparr>"

text \<open>The emergency token created on \<open>storeA\<close>, where both slots are empty.\<close>

definition tokE :: token where
  "tokE = \<lparr>t_id = 12, t_doctorId = 1, t_slotId = 10, t_date = day0, patientName = ''E'',
            source = ''EMERGENCY'', priorityScore = 5, status = SCHEDULED\<rparr>"

text \<open>
  The end-to-end scenario of the specification: two walk-in bookings fill the two slots of
  doctor A.
\<close>

definition tokW1 :: token where
  "tokW1 = \<lparr>t_id = 12, t_doctorId = 1, t_slotId = 10, t_date = day0, patientName = ''W'',
             source = ''WALK_IN'', priorityScore = 1, status = SCHEDULED\<rparr>"

definition tokW2 :: token where
  "tokW2 = \<lparr>t_id = 13, t_doctorId = 1, t_slotId = 11, t_date = day0, patientName = ''W'',
             source = ''WALK_IN'', priorityScore = 1, status = SCHEDULED\<rparr>"

definition storeA1 :: store where
  "storeA1 = \<lparr>doctors = [docA, docB], slots = [slotA1, slotA2], tokens = [tokW1],
               nanoid_next = 13\<rparr>"

definition storeA2 :: store where
  "storeA2 = \<lparr>doctors = [docA, docB], slots = [slotA1, slotA2], tokens = [tokW1, tokW2],
               nanoid_next = 14\<rparr>"

text \<open>The store \<open>storeA1\<close> after the cancellation of its token.\<close>

definition tokW1c :: token where
  "tokW1c = \<lparr>t_id = 12, t_doctorId = 1, t_slotId = 10, t_date = day0, patientName = ''W'',
              source = ''WALK_IN'', priorityScore = 1, status = CANCELLED\<rparr>"

definition storeA1c :: store where
  "storeA1c = \<lparr>doctors = [docA, docB], slots = [slotA1, slotA2], tokens = [tokW1c],
                nanoid_next = 13\<rparr>"

text \<open>The scenario of the specification for rebalancing: slot 1 holds a walk-in, slot 2 an online booking.\<close>

definition tokO2 :: token where
  "tokO2 = \<lparr>t_id = 13, t_doctorId = 1, t_slotId = 11, t_date = day0, patientName = ''O'',
             source = ''ONLINE'', priorityScore = 2, status = SCHEDULED\<rparr>"

definition storeR :: store where
  "storeR = \<lparr>doctors = [docA, docB], slots = [slotA1, slotA2], tokens = [tokW1, tokO2],
              nanoid_next = 14\<rparr>"

text \<open>\<open>storeR\<close> after the status of the walk-in is written, and after the rebalancing.\<close>

definition storeR1 :: store where
  "storeR1 = \<lparr>doctors = [docA, docB], slots = [slotA1, slotA2], tokens = [tokW1c, tokO2],
               nanoid_next = 14\<rparr>"

definition storeR2 :: store where
  "storeR2 = \<lparr>doctors = [docA, docB], slots = [slotA1, slotA2],
               tokens = [tokW1c, tokO2\<lparr>t_slotId := 10\<rparr>], nanoid_next = 14\<rparr>"

text \<open>
  The emergency path run on its own on \<open>storeA1\<close> (slot 1 full with a walk-in, slot 2
  free), and the call of \<open>allocateToken\<close> on the same store.
\<close>

definition tokE1 :: token where
  "tokE1 = \<lparr>t_id = 13, t_doctorId = 1, t_slotId = 10, t_date = day0, patientName = ''E'',
             source = ''EMERGENCY'', priorityScore = 5, status = SCHEDULED\<rparr>"

definition tokE2 :: token where
  "tokE2 = \<lparr>t_id = 13, t_doctorId = 1, t_slotId = 11, t_date = day0, patientName = ''E'',
             source = ''EMERGENCY'', priorityScore = 5, status = SCHEDULED\<rparr>"

definition storeD :: store where
  "storeD = \<lparr>doctors = [docA, docB], slots = [slotA1, slotA2],
              tokens = [tokW1\<lparr>t_slotId := 11\<rparr>, tokE1], nanoid_next = 14\<rparr>"

definition storeE :: store where
  "storeE = \<lparr>doctors = [docA, docB], slots = [slotA1, slotA2],
              tokens = [tokW1, tokE2], nanoid_next = 14\<rparr>"

text \<open>
  An emergency already holds the first slot: \<open>storeF\<close>, and \<open>storeF2\<close> after a second
  emergency booking.
\<close>

definition storeF :: store where
  "storeF = \<lparr>doctors = [docA, docB], slots = [slotA1, slotA2], tokens = [tokE],
              nanoid_next = 13\<rparr>"

definition storeF2 :: store where
  "storeF2 = \<lparr>doctors = [docA, docB], slots = [slotA1, slotA2], tokens = [tokE, tokE2],
               nanoid_next = 14\<rparr>"

text \<open>\<open>storeA1\<close> and \<open>storeR\<close> after their first token is marked as a no-show.\<close>

definition tokW1n :: token where
  "tokW1n = \<lparr>t_id = 12, t_doctorId = 1, t_slotId = 10, t_date = day0, patientName = ''W'',
              source = ''WALK_IN'', priorityScore = 1, status = NO_SHOW\<rparr>"

definition storeA1n :: store where
  "storeA1n = \<lparr>doctors = [docA, docB], slots = [slotA1, slotA2], tokens = [tokW1n],
                nanoid_next = 13\<rparr>"

definition storeR2n :: store where
  "storeR2n = \<lparr>doctors = [docA, docB], slots = [slotA1, slotA2],
                tokens = [tokW1n, tokO2\<lparr>t_slotId := 10\<rparr>], nanoid_next = 14\<rparr>"

text \<open>
  Doctor Z has the hours of doctor A and capacity 0; \<open>storeZ\<close> holds no slot and no token,
  \<open>storeZ1\<close> is \<open>storeZ\<close> with the slots of doctor Z generated.
\<close>

definition docZ :: doctor where
  "docZ = \<lparr>d_id = 3, d_name = ''Dr. Z'', d_startTime = 540, d_endTime = 570,
            slotDurationMinutes = 15, maxPatientsPerSlot = 0\<rparr>"

definition reqZ :: request where
  "reqZ = \<lparr>r_doctorId = 3, r_date = day0, r_source = Some ''WALK_IN'',
            r_patientName = ''W'', r_emergency = False\<rparr>"

definition slotZ1 :: slot where
  "slotZ1 = \<lparr>s_id = 10, s_doctorId = 3, s_date = day0, s_startTime = 540, s_endTime = 555,
              capacity = 0\<rparr>"

definition slotZ2 :: slot where
  "slotZ2 = \<lparr>s_id = 11, s_doctorId = 3, s_date = day0, s_startTime = 555, s_endTime = 570,
              capacity = 0\<rparr>"

definition storeZ :: store where
  "storeZ = \<lparr>doctors = [docZ], slots = [], tokens = [], nanoid_next = 10\<rparr>"

definition storeZ1 :: store where
  "storeZ1 = \<lparr>doctors = [docZ], slots = [slotZ1, slotZ2], tokens = [], nanoid_next = 12\<rparr>"

section \<open>Slot generation: closed form\<close>

lemma slotCount_step:
  assumes "0 < dur" "current < end"
  shows "slotCount end current dur = Suc (slotCount end (current + dur) dur)"
proof (cases "end - current < dur")
  case True
  have "end - current + dur - 1 = (end - current - 1) + dur"
    using assms by arith
  then have "(end - current + dur - 1) div dur = ((end - current - 1) + dur) div dur"
    by (rule arg_cong)
  also have "\<dots> = Suc ((end - current - 1) div dur)"
    using assms(1) by (simp only: div_add_self2)
  also have "(end - current - 1) div dur = 0"
    using True assms by simp
  finally have "(end - current + dur - 1) div dur = Suc 0" .
  moreover have "(end - (current + dur) + dur - 1) div dur = 0"
    using True assms by simp
  ultimately show ?thesis unfolding slotCount_def by simp
next
  case False
  have "end - current + dur - 1 = (end - (current + dur) + dur - 1) + dur"
    using assms False by arith
  then have "(end - current + dur - 1) div dur = ((end - (current + dur) + dur - 1) + dur) div dur"
    by (rule arg_cong)
  also have "\<dots> = Suc ((end - (current + dur) + dur - 1) div dur)"
    using assms(1) by (simp only: div_add_self2)
  finally show ?thesis unfolding slotCount_def .
qed

lemma slotLoop_closed:
  assumes "0 < slotDurationMinutes doctor"
  shows "slotLoop doctor dateStr end current n acc =
     Some (acc @ map (\<lambda>k. newSlot doctor dateStr (n + k) (current + k * slotDurationMinutes doctor))
                    [0..<slotCount end current (slotDurationMinutes doctor)],
           n + slotCount end current (slotDurationMinutes doctor))"
proof (induction "end - current" arbitrary: current n acc rule: less_induct)
  case less
  show ?case
  proof (cases "current < end")
    case True
    let ?d = "slotDurationMinutes doctor"
    have lt: "end - (current + ?d) < end - current" using True assms by simp
    have "slotLoop doctor dateStr end current n acc =
          slotLoop doctor dateStr end (current + ?d) (Suc n) (acc @ [newSlot doctor dateStr n current])"
      using True by (subst slotLoop.simps) simp
    also have "\<dots> = Some ((acc @ [newSlot doctor dateStr n current]) @
                 map (\<lambda>k. newSlot doctor dateStr (Suc n + k) (current + ?d + k * ?d))
                   [0..<slotCount end (current + ?d) ?d],
               Suc n + slotCount end (current + ?d) ?d)"
      by (rule less[OF lt])
    also have "\<dots> = Some (acc @
                 map (\<lambda>k. newSlot doctor dateStr (n + k) (current + k * ?d))
                   [0..<Suc (slotCount end (current + ?d) ?d)],
               n + Suc (slotCount end (current + ?d) ?d))"
      unfolding map_upt_Suc by (simp add: add.assoc)
    finally show ?thesis
      unfolding slotCount_step[OF assms True] .
  next
    case False
    then have "slotCount end current (slotDurationMinutes doctor) = 0"
      using assms by (simp add: slotCount_def)
    then show ?thesis using False by (subst slotLoop.simps) simp
  qed
qed

lemma slotLoop_diverges_aux:
  assumes "slotLoop doctor dateStr end current n acc = Some y"
  shows "\<not> (slotDurationMinutes doctor = 0 \<and> current < end)"
proof (rule slotLoop.raw_induct[where P = "\<lambda>doctor dateStr end current n acc y.
          \<not> (slotDurationMinutes doctor = 0 \<and> current < end)", OF _ assms])
  fix f doctor dateStr "end" current n acc and y :: "slot list \<times> nat"
  assume IH: "\<And>doctor dateStr end current n acc y. f doctor dateStr end current n acc = Some y \<Longrightarrow>
                 \<not> (slotDurationMinutes doctor = 0 \<and> current < end)"
    and body: "(if current < end
                then f doctor dateStr end (current + slotDurationMinutes doctor) (Suc n)
                       (acc @ [newSlot doctor dateStr n current])
                else Some (acc, n)) = Some y"
  show "\<not> (slotDurationMinutes doctor = 0 \<and> current < end)"
  proof
    assume a: "slotDurationMinutes doctor = 0 \<and> current < end"
    with body have "f doctor dateStr end current (Suc n) (acc @ [newSlot doctor dateStr n current]) = Some y"
      by simp
    from IH[OF this] a show False by simp
  qed
qed

lemma slotLoop_eq:
  "slotLoop doctor dateStr end current n acc =
     (if slotDurationMinutes doctor = 0 \<and> current < end then None
      else Some (acc @ map (\<lambda>k. newSlot doctor dateStr (n + k) (current + k * slotDurationMinutes doctor))
                    [0..<slotCount end current (slotDurationMinutes doctor)],
                 n + slotCount end current (slotDurationMinutes doctor)))"
proof (cases "slotDurationMinutes doctor = 0")
  case True
  show ?thesis
  proof (cases "current < end")
    case lt: True
    have "slotLoop doctor dateStr end current n acc = None"
      using slotLoop_diverges_aux[of doctor dateStr "end" current n acc] True lt
      by (cases "slotLoop doctor dateStr end current n acc") auto
    then show ?thesis using True lt by simp
  next
    case False
    then show ?thesis using True by (subst slotLoop.simps) (simp add: slotCount_def)
  qed
next
  case False
  then show ?thesis using slotLoop_closed[of doctor dateStr "end" current n acc] by simp
qed

lemma generateSlotsForDay_eq:
  "generateSlotsForDay st doctor date =
     (if existingSlots st (d_id doctor) date \<noteq> [] then Some (existingSlots st (d_id doctor) date, st)
      else if slotDurationMinutes doctor = 0 \<and> d_startTime doctor < d_endTime doctor then None
      else Some (freshSlots doctor date (nanoid_next st),
                 st\<lparr>slots := slots st @ freshSlots doctor date (nanoid_next st),
                    nanoid_next := nanoid_next st + length (freshSlots doctor date (nanoid_next st))\<rparr>))"
  by (simp add: generateSlotsForDay_def existingSlots_def slotLoop_eq freshSlots_def Let_def)

lemma slotCount_upper:
  assumes "0 < dur"
  shows "end - current \<le> slotCount end current dur * dur"
proof -
  let ?X = "end - current + dur - 1"
  have "?X = (?X div dur) * dur + ?X mod dur" by simp
  moreover have "?X mod dur < dur" using assms by simp
  ultimately have "?X < (?X div dur) * dur + dur" by linarith
  then show ?thesis unfolding slotCount_def using assms by linarith
qed

lemma slotCount_lower:
  assumes "0 < dur" "k < slotCount end current dur"
  shows "current + k * dur < end"
proof -
  let ?X = "end - current + dur - 1"
  have "Suc k \<le> ?X div dur" using assms(2) unfolding slotCount_def by simp
  then have "Suc k * dur \<le> (?X div dur) * dur" by (rule mult_le_mono1)
  also have "\<dots> \<le> ?X" by simp
  finally have "k * dur + dur \<le> end - current + dur - 1" by simp
  then show ?thesis using assms(1) by linarith
qed

lemma slotCount_exact:
  assumes "0 < dur" "current < end"
  shows "(current + slotCount end current dur * dur = end) = (dur dvd (end - current))"
proof
  assume "current + slotCount end current dur * dur = end"
  then have "end - current = slotCount end current dur * dur" by simp
  then show "dur dvd (end - current)" by simp
next
  assume "dur dvd (end - current)"
  then obtain q where q: "end - current = dur * q" by (auto simp: dvd_def)
  have "q > 0" using q assms by (cases q) auto
  have "end - current + dur - 1 = (dur - 1) + q * dur" using q assms by (simp add: mult.commute)
  then have "slotCount end current dur = (dur - 1 + q * dur) div dur" by (simp add: slotCount_def)
  also have "\<dots> = q + (dur - 1) div dur"
    using assms(1) div_mult_self1[of dur "dur - 1" q] by blast
  also have "\<dots> = q" using assms(1) by simp
  finally show "current + slotCount end current dur * dur = end" using q assms by (simp add: mult.commute)
qed

lemma length_freshSlots:
  "length (freshSlots doctor date n) =
     slotCount (d_endTime doctor) (d_startTime doctor) (slotDurationMinutes doctor)"
  by (simp add: freshSlots_def)

lemma nth_freshSlots:
  "k < length (freshSlots doctor date n) \<Longrightarrow>
     freshSlots doctor date n ! k =
       newSlot doctor date (n + k) (d_startTime doctor + k * slotDurationMinutes doctor)"
  by (simp add: freshSlots_def)

lemma freshSlots_match:
  "s \<in> set (freshSlots doctor date n) \<Longrightarrow> s_doctorId s = d_id doctor \<and> s_date s = date"
  by (auto simp: freshSlots_def newSlot_def)

lemma existingSlots_append_fresh:
  "existingSlots (st\<lparr>slots := slots st @ freshSlots doctor date n, nanoid_next := m\<rparr>) (d_id doctor) date =
     existingSlots st (d_id doctor) date @ freshSlots doctor date n"
proof -
  have "filter (\<lambda>s. s_doctorId s = d_id doctor \<and> s_date s = date) (freshSlots doctor date n) =
          freshSlots doctor date n"
    by (rule filter_True) (simp add: freshSlots_match)
  then show ?thesis by (simp add: existingSlots_def)
qed

section \<open>The chronological sequence of a generated day\<close>

text \<open>
  For a doctor whose window ends by midnight, the start times of the generated slots
  increase strictly, so \<open>getSlotsForDoctorDay\<close> returns the slots of the day in the order of
  their generation.
\<close>

lemma startTimes_freshSlots:
  assumes "0 < slotDurationMinutes doctor" "d_endTime doctor \<le> 1440"
  shows "map s_startTime (freshSlots doctor date n) =
           map (\<lambda>k. d_startTime doctor + k * slotDurationMinutes doctor)
             [0..<length (freshSlots doctor date n)]"
proof (rule nth_equalityI)
  show "length (map s_startTime (freshSlots doctor date n)) =
        length (map (\<lambda>k. d_startTime doctor + k * slotDurationMinutes doctor)
             [0..<length (freshSlots doctor date n)])" by simp
next
  fix k assume "k < length (map s_startTime (freshSlots doctor date n))"
  then have k: "k < length (freshSlots doctor date n)" by simp
  then have "d_startTime doctor + k * slotDurationMinutes doctor < d_endTime doctor"
    using slotCount_lower[OF assms(1)] by (simp add: length_freshSlots)
  then have "format_HHmm (d_startTime doctor + k * slotDurationMinutes doctor) =
             d_startTime doctor + k * slotDurationMinutes doctor"
    using assms(2) by (simp add: format_HHmm_def)
  then show "map s_startTime (freshSlots doctor date n) ! k =
             map (\<lambda>k. d_startTime doctor + k * slotDurationMinutes doctor)
               [0..<length (freshSlots doctor date n)] ! k"
    using k by (simp add: nth_freshSlots newSlot_def)
qed

lemma freshSlots_strictly_increasing:
  assumes "0 < slotDurationMinutes doctor" "d_endTime doctor \<le> 1440"
  shows "sorted_wrt (<) (map s_startTime (freshSlots doctor date n))"
  unfolding startTimes_freshSlots[OF assms] sorted_wrt_iff_nth_less
  using assms(1) by simp

lemma day_after_generation:
  assumes "0 < slotDurationMinutes doctor" "d_endTime doctor \<le> 1440"
      and "existingSlots st (d_id doctor) date = []"
      and "generateSlotsForDay st doctor date = Some (generated, st1)"
  shows "getSlotsForDoctorDay st1 (d_id doctor) date = generated
         \<and> sorted_wrt (<) (map s_startTime generated)"
proof -
  let ?new = "freshSlots doctor date (nanoid_next st)"
  from assms(1,3,4) have g: "generated = ?new"
    and st1: "st1 = st\<lparr>slots := slots st @ ?new, nanoid_next := nanoid_next st + length ?new\<rparr>"
    by (auto simp: generateSlotsForDay_eq)
  have inc: "sorted_wrt (<) (map s_startTime ?new)"
    by (rule freshSlots_strictly_increasing[OF assms(1,2)])
  then have "sorted (map s_startTime ?new)" by (rule strict_sorted_imp_sorted)
  then have "sort_key s_startTime ?new = ?new" by (rule sort_key_id_if_sorted)
  moreover have "existingSlots st1 (d_id doctor) date = ?new"
    unfolding st1 existingSlots_append_fresh using assms(3) by simp
  ultimately have "getSlotsForDoctorDay st1 (d_id doctor) date = ?new"
    by (simp add: getSlotsForDoctorDay_def existingSlots_def)
  with g inc show ?thesis by simp
qed

section \<open>Evaluation of the examples\<close>

lemma freshSlots_docA: "freshSlots docA day0 10 = [slotA1, slotA2]"
  by code_simp

lemma generate_store0_docA: "generateSlotsForDay store0 docA day0 = Some ([slotA1, slotA2], storeA)"
  by (simp add: generateSlotsForDay_eq existingSlots_def store0_def storeA_def freshSlots_docA)
     (simp add: docA_def)

lemma freshSlots_docB: "freshSlots docB day0 10 = [slotB1, slotB2, slotB3]"
  by code_simp

lemma generate_store0_docB: "generateSlotsForDay store0 docB day0 = Some ([slotB1, slotB2, slotB3], storeB)"
  by (simp add: generateSlotsForDay_eq existingSlots_def store0_def storeB_def freshSlots_docB)
     (simp add: docB_def)

section \<open>Termination of slot generation\<close>

text \<open>
  Claim C10. For a doctor whose \<open>slotDurationMinutes\<close> is at least 1, the slot-generation
  loop returns: from the cursor \<open>startTime\<close> it pushes one slot for each of the cursor
  positions \<open>startTime + k * slotDurationMinutes\<close> before \<open>endTime\<close>, finitely many
  (\<open>slotCount\<close>, the window over the duration, rounded up), none when \<open>endTime \<le> startTime\<close>;
  and \<open>generateSlotsForDay\<close> returns on every store.
\<close>

theorem slot_generation_terminates:
  assumes "1 \<le> slotDurationMinutes doctor"
  shows "slotLoop doctor date (d_endTime doctor) (d_startTime doctor) n [] =
           Some (freshSlots doctor date n, n + length (freshSlots doctor date n))
         \<and> length (freshSlots doctor date n) =
             slotCount (d_endTime doctor) (d_startTime doctor) (slotDurationMinutes doctor)
         \<and> (d_endTime doctor \<le> d_startTime doctor \<longrightarrow> freshSlots doctor date n = [])
         \<and> generateSlotsForDay st doctor date \<noteq> None"
  using assms
  by (simp add: slotLoop_eq generateSlotsForDay_eq freshSlots_def slotCount_def)

theorem slot_generation_terminates_witness:
  "1 \<le> slotDurationMinutes docA
   \<and> slotLoop docA day0 570 540 10 [] = Some ([slotA1, slotA2], 12)
   \<and> generateSlotsForDay store0 docA day0 \<noteq> None
   \<and> 1 \<le> slotDurationMinutes (docA\<lparr>d_startTime := 570\<rparr>)
   \<and> d_endTime (docA\<lparr>d_startTime := 570\<rparr>) \<le> d_startTime (docA\<lparr>d_startTime := 570\<rparr>)
   \<and> slotLoop (docA\<lparr>d_startTime := 570\<rparr>) day0 570 570 10 [] = Some ([], 10)"
proof -
  have d: "1 \<le> slotDurationMinutes docA" "1 \<le> slotDurationMinutes (docA\<lparr>d_startTime := 570\<rparr>)"
    "d_endTime docA = 570" "d_startTime docA = 540"
    "d_endTime (docA\<lparr>d_startTime := 570\<rparr>) \<le> d_startTime (docA\<lparr>d_startTime := 570\<rparr>)"
    by (simp_all add: docA_def)
  note T = slot_generation_terminates[OF d(1), of day0 10 store0]
  note T' = slot_generation_terminates[OF d(2), of day0 10 store0]
  have e: "freshSlots (docA\<lparr>d_startTime := 570\<rparr>) day0 10 = []"
    using T'[THEN conjunct2, THEN conjunct2, THEN conjunct1] d(5) by blast
  have "slotLoop (docA\<lparr>d_startTime := 570\<rparr>) day0 570 570 10 [] = Some ([], 10)"
    using T'[THEN conjunct1] e d(3) by simp
  moreover have "slotLoop docA day0 570 540 10 [] = Some ([slotA1, slotA2], 12)"
    using T[THEN conjunct1] d(3,4) by (simp add: freshSlots_docA)
  moreover have "generateSlotsForDay store0 docA day0 \<noteq> None"
    using T by blast
  ultimately show ?thesis using d by blast
qed

section \<open>Idempotent slot generation\<close>

text \<open>
  Claim C7. When slots of \<open>(doctor.id, date)\<close> are in the store, \<open>generateSlotsForDay\<close>
  returns exactly those slots, in storage order, and leaves the store as it is. Hence a
  second call for the same doctor and date returns the list the first call returned (the
  same slots, with the same identifiers) and adds nothing to the store.
\<close>

theorem slot_generation_idempotent:
  "(existingSlots st (d_id doctor) date \<noteq> [] \<longrightarrow>
      generateSlotsForDay st doctor date = Some (existingSlots st (d_id doctor) date, st))
   \<and> (generateSlotsForDay st doctor date = Some (sl, st1) \<longrightarrow>
      generateSlotsForDay st1 doctor date = Some (sl, st1))"
proof (intro conjI impI)
  assume "existingSlots st (d_id doctor) date \<noteq> []"
  then show "generateSlotsForDay st doctor date = Some (existingSlots st (d_id doctor) date, st)"
    by (simp add: generateSlotsForDay_eq)
next
  assume g: "generateSlotsForDay st doctor date = Some (sl, st1)"
  show "generateSlotsForDay st1 doctor date = Some (sl, st1)"
  proof (cases "existingSlots st (d_id doctor) date = []")
    case False
    with g show ?thesis by (auto simp: generateSlotsForDay_eq)
  next
    case True
    let ?new = "freshSlots doctor date (nanoid_next st)"
    from g True have nd: "\<not> (slotDurationMinutes doctor = 0 \<and> d_startTime doctor < d_endTime doctor)"
      and sl: "sl = ?new"
      and st1: "st1 = st\<lparr>slots := slots st @ ?new, nanoid_next := nanoid_next st + length ?new\<rparr>"
      by (auto simp: generateSlotsForDay_eq split: if_splits)
    show ?thesis
    proof (cases "?new = []")
      case e: True
      then have "st1 = st" using st1 by simp
      then show ?thesis using g by simp
    next
      case ne: False
      have "existingSlots st1 (d_id doctor) date = ?new"
        unfolding st1 existingSlots_append_fresh using True by simp
      then show ?thesis using ne sl by (simp add: generateSlotsForDay_eq)
    qed
  qed
qed

theorem slot_generation_idempotent_witness:
  "existingSlots storeA (d_id docA) day0 \<noteq> []
   \<and> generateSlotsForDay storeA docA day0 = Some (existingSlots storeA (d_id docA) day0, storeA)
   \<and> generateSlotsForDay store0 docA day0 = Some ([slotA1, slotA2], storeA)
   \<and> generateSlotsForDay storeA docA day0 = Some ([slotA1, slotA2], storeA)"
proof -
  have ne: "existingSlots storeA (d_id docA) day0 \<noteq> []"
    by (simp add: existingSlots_def storeA_def docA_def slotA1_def)
  show ?thesis
    using ne generate_store0_docA
      slot_generation_idempotent[of storeA docA day0 "[slotA1, slotA2]" storeA]
      slot_generation_idempotent[of store0 docA day0 "[slotA1, slotA2]" storeA]
    by simp
qed

section \<open>The window of the generated slots\<close>

text \<open>
  Claim C2, as stated, fails: doctor B works 09:00 to 09:40 in slots of 15 minutes. The
  loop tests the start of a slot only, so a third slot 09:30 to 09:45 is pushed, which
  ends after the doctor's \<open>endTime\<close>.
\<close>

theorem trailing_slot_counterexample:
  "existingSlots store0 (d_id docB) day0 = []
   \<and> \<not> slotDurationMinutes docB dvd (d_endTime docB - d_startTime docB)
   \<and> generateSlotsForDay store0 docB day0 = Some ([slotB1, slotB2, slotB3], storeB)
   \<and> s_endTime slotB3 = 585 \<and> d_endTime docB = 580
   \<and> \<not> s_endTime slotB3 \<le> d_endTime docB"
  by (simp add: generate_store0_docB)
     (simp add: existingSlots_def store0_def docB_def slotB3_def)

text \<open>
  Claim C2, amended. A first generation for a doctor with a positive duration pushes one
  slot of the full duration for every cursor position \<open>startTime + k * duration\<close> that is
  before \<open>endTime\<close>: every slot starts inside the window and none is shorter than the
  duration. The last slot ends at \<open>endTime\<close> exactly when the duration divides the window;
  otherwise it ends after \<open>endTime\<close>, by less than one duration.
\<close>

theorem slot_generation_window:
  assumes "0 < slotDurationMinutes doctor"
      and "existingSlots st (d_id doctor) date = []"
  shows "generateSlotsForDay st doctor date =
           Some (freshSlots doctor date (nanoid_next st),
                 st\<lparr>slots := slots st @ freshSlots doctor date (nanoid_next st),
                    nanoid_next := nanoid_next st + length (freshSlots doctor date (nanoid_next st))\<rparr>)
         \<and> (\<forall>k < length (freshSlots doctor date (nanoid_next st)).
               d_startTime doctor + k * slotDurationMinutes doctor < d_endTime doctor
               \<and> s_startTime (freshSlots doctor date (nanoid_next st) ! k) =
                   format_HHmm (d_startTime doctor + k * slotDurationMinutes doctor)
               \<and> s_endTime (freshSlots doctor date (nanoid_next st) ! k) =
                   format_HHmm (d_startTime doctor + k * slotDurationMinutes doctor
                                + slotDurationMinutes doctor))
         \<and> (d_startTime doctor < d_endTime doctor \<longrightarrow>
               freshSlots doctor date (nanoid_next st) \<noteq> []
               \<and> d_endTime doctor \<le> d_startTime doctor
                     + length (freshSlots doctor date (nanoid_next st)) * slotDurationMinutes doctor
               \<and> d_startTime doctor
                     + length (freshSlots doctor date (nanoid_next st)) * slotDurationMinutes doctor
                   < d_endTime doctor + slotDurationMinutes doctor
               \<and> ((d_startTime doctor
                     + length (freshSlots doctor date (nanoid_next st)) * slotDurationMinutes doctor
                    = d_endTime doctor)
                  = (slotDurationMinutes doctor dvd (d_endTime doctor - d_startTime doctor))))"
proof -
  let ?d = "slotDurationMinutes doctor" and ?s = "d_startTime doctor" and ?e = "d_endTime doctor"
  let ?new = "freshSlots doctor date (nanoid_next st)"
  have len: "length ?new = slotCount ?e ?s ?d" by (rule length_freshSlots)
  have A: "generateSlotsForDay st doctor date =
           Some (?new, st\<lparr>slots := slots st @ ?new, nanoid_next := nanoid_next st + length ?new\<rparr>)"
    using assms by (simp add: generateSlotsForDay_eq)
  have B: "\<forall>k < length ?new. ?s + k * ?d < ?e
               \<and> s_startTime (?new ! k) = format_HHmm (?s + k * ?d)
               \<and> s_endTime (?new ! k) = format_HHmm (?s + k * ?d + ?d)"
  proof (intro allI impI)
    fix k assume k: "k < length ?new"
    then have "?s + k * ?d < ?e" using slotCount_lower[OF assms(1)] len by simp
    then show "?s + k * ?d < ?e
               \<and> s_startTime (?new ! k) = format_HHmm (?s + k * ?d)
               \<and> s_endTime (?new ! k) = format_HHmm (?s + k * ?d + ?d)"
      using k by (simp add: nth_freshSlots newSlot_def)
  qed
  have C: "?s < ?e \<longrightarrow> ?new \<noteq> [] \<and> ?e \<le> ?s + length ?new * ?d
             \<and> ?s + length ?new * ?d < ?e + ?d
             \<and> ((?s + length ?new * ?d = ?e) = (?d dvd (?e - ?s)))"
  proof
    assume lt: "?s < ?e"
    have up: "?e - ?s \<le> slotCount ?e ?s ?d * ?d" by (rule slotCount_upper[OF assms(1)])
    then have pos: "0 < slotCount ?e ?s ?d" using lt by (cases "slotCount ?e ?s ?d") auto
    then have "slotCount ?e ?s ?d - 1 < slotCount ?e ?s ?d" by simp
    from slotCount_lower[OF assms(1) this]
    have "?s + (slotCount ?e ?s ?d - 1) * ?d < ?e" .
    then have "?s + slotCount ?e ?s ?d * ?d < ?e + ?d"
      using pos by (cases "slotCount ?e ?s ?d") auto
    moreover have "?new \<noteq> []" using pos len by auto
    moreover have "?e \<le> ?s + length ?new * ?d" using up len by simp
    ultimately show "?new \<noteq> [] \<and> ?e \<le> ?s + length ?new * ?d
             \<and> ?s + length ?new * ?d < ?e + ?d
             \<and> ((?s + length ?new * ?d = ?e) = (?d dvd (?e - ?s)))"
      using slotCount_exact[OF assms(1) lt] len by simp
  qed
  from A B C show ?thesis by blast
qed

theorem slot_generation_window_witness:
  "0 < slotDurationMinutes docB
   \<and> existingSlots store0 (d_id docB) day0 = []
   \<and> generateSlotsForDay store0 docB day0 = Some ([slotB1, slotB2, slotB3], storeB)
   \<and> d_startTime docB < d_endTime docB
   \<and> d_endTime docB \<le> d_startTime docB + 3 * slotDurationMinutes docB
   \<and> d_startTime docB + 3 * slotDurationMinutes docB < d_endTime docB + slotDurationMinutes docB"
proof -
  have h1: "0 < slotDurationMinutes docB" by (simp add: docB_def)
  have h2: "existingSlots store0 (d_id docB) day0 = []" by (simp add: existingSlots_def store0_def)
  have h3: "d_startTime docB < d_endTime docB" by (simp add: docB_def)
  show ?thesis
    using h1 h2 h3 slot_generation_window[OF h1 h2] generate_store0_docB
    by (simp add: freshSlots_docB store0_def)
qed

section \<open>The slot sequence of a day\<close>

text \<open>\<open>getSlotsForDoctorDay\<close> returns the chronological slot sequence of the doctor and date.\<close>

lemma getSlotsForDoctorDay_isDaySequence:
  "isDaySequence st doctorId date (getSlotsForDoctorDay st doctorId date)"
  unfolding isDaySequence_def getSlotsForDoctorDay_def
proof (intro conjI allI)
  let ?xs = "filter (\<lambda>s. s_doctorId s = doctorId \<and> s_date s = date) (slots st)"
  show "sorted (map s_startTime (sort_key s_startTime ?xs))" by (rule sorted_sort_key)
  show "set (sort_key s_startTime ?xs) =
          {s \<in> set (slots st). s_doctorId s = doctorId \<and> s_date s = date}"
    by auto
  fix t
  show "filter (\<lambda>s. s_startTime s = t) (sort_key s_startTime ?xs) =
          filter (\<lambda>s. s_startTime s = t) ?xs"
    by (rule sort_key_stable)
qed

section \<open>Tokens of a slot\<close>

lemma filter_index_conv:
  "map (\<lambda>i. xs ! i) (filter (\<lambda>i. P (xs ! i)) [0..<length xs]) = filter P xs"
proof -
  have "filter P xs = filter P (map (\<lambda>i. xs ! i) [0..<length xs])"
    by (simp add: map_nth)
  also have "\<dots> = map (\<lambda>i. xs ! i) (filter (\<lambda>i. P (xs ! i)) [0..<length xs])"
    by (simp add: filter_map comp_def)
  finally show ?thesis by simp
qed

lemma length_filter_index:
  "length (filter (\<lambda>i. P (xs ! i)) [0..<length xs]) = length (filter P xs)"
  using arg_cong[OF filter_index_conv[of xs P], of length] by simp

lemma length_getTokensForSlot:
  "length (getTokensForSlot st slotId) = scheduledCount st slotId"
  unfolding getTokensForSlot_def scheduledCount_def
  using length_filter_index[of "\<lambda>t. t_slotId t = slotId \<and> status t = SCHEDULED" "tokens st"]
  by simp

lemma set_getTokensForSlot:
  "set (getTokensForSlot st slotId) =
     {i. i < length (tokens st) \<and> t_slotId (tokens st ! i) = slotId
         \<and> status (tokens st ! i) = SCHEDULED}"
  by (auto simp: getTokensForSlot_def)

lemma firstFree_find:
  "firstFree st sls = find (\<lambda>sl. scheduledCount st (s_id sl) < capacity sl) sls"
  by (induction sls) (simp_all add: length_getTokensForSlot)

section \<open>The two passes of the allocation\<close>

text \<open>
  The emergency path starts only after the first loop found no slot with free capacity,
  on the same store; then no later slot has free capacity either, and the path returns
  \<^verbatim>\<open>null\<close>.
\<close>

lemma emergencyPass_after_firstFree:
  "firstFree st sls = None \<Longrightarrow> emergencyPass st r src score sls = None"
  by (induction sls) (auto simp: Let_def split: if_splits)

lemma allocateToken_invalid:
  assumes "\<forall>s. effectiveSource r = Some s \<longrightarrow> s \<notin> set tokenSources"
  shows "allocateToken st r = Some (Inl InvalidTokenSource, st)"
  using assms by (auto simp: allocateToken_def effectiveSource_def split: option.splits)

lemma allocateToken_no_doctor:
  assumes "effectiveSource r = Some src" "src \<in> set tokenSources"
      and "getDoctorById st (r_doctorId r) = None"
  shows "allocateToken st r = Some (Inl DoctorNotFound, st)"
  using assms by (auto simp: allocateToken_def effectiveSource_def split: option.splits)

lemma allocateToken_eq:
  assumes "effectiveSource r = Some src" "src \<in> set tokenSources"
      and "getDoctorById st (r_doctorId r) = Some doctor"
  shows "allocateToken st r =
     (case generateSlotsForDay st doctor (r_date r) of
        None \<Rightarrow> None
      | Some (generated, st1) \<Rightarrow>
          (case firstFree st1 (getSlotsForDoctorDay st1 (r_doctorId r) (r_date r)) of
             Some sl \<Rightarrow>
               Some (Inr (Some (fst (createTokenInSlot st1 r src (getPriorityScore src) sl))),
                     snd (createTokenInSlot st1 r src (getPriorityScore src) sl))
           | None \<Rightarrow> Some (Inr None, st1)))"
proof -
  have eff: "(if r_emergency r then Some ''EMERGENCY'' else r_source r) = Some src"
    using assms(1) by (simp add: effectiveSource_def)
  show ?thesis
    unfolding allocateToken_def eff
    using assms(2,3)
    by (auto simp: Let_def emergencyPass_after_firstFree split: option.splits prod.splits)
qed

lemma allocateToken_cases:
  assumes "allocateToken st r = Some (res, st')"
  obtains
    (invalid) "\<forall>s. effectiveSource r = Some s \<longrightarrow> s \<notin> set tokenSources"
        "res = Inl InvalidTokenSource" "st' = st"
  | (no_doctor) src where "effectiveSource r = Some src" "src \<in> set tokenSources"
        "getDoctorById st (r_doctorId r) = None" "res = Inl DoctorNotFound" "st' = st"
  | (full) src doctor generated st1 where "effectiveSource r = Some src" "src \<in> set tokenSources"
        "getDoctorById st (r_doctorId r) = Some doctor"
        "generateSlotsForDay st doctor (r_date r) = Some (generated, st1)"
        "firstFree st1 (getSlotsForDoctorDay st1 (r_doctorId r) (r_date r)) = None"
        "res = Inr None" "st' = st1"
  | (placed) src doctor generated st1 sl where "effectiveSource r = Some src" "src \<in> set tokenSources"
        "getDoctorById st (r_doctorId r) = Some doctor"
        "generateSlotsForDay st doctor (r_date r) = Some (generated, st1)"
        "firstFree st1 (getSlotsForDoctorDay st1 (r_doctorId r) (r_date r)) = Some sl"
        "res = Inr (Some (fst (createTokenInSlot st1 r src (getPriorityScore src) sl)))"
        "st' = snd (createTokenInSlot st1 r src (getPriorityScore src) sl)"
proof (cases "\<forall>s. effectiveSource r = Some s \<longrightarrow> s \<notin> set tokenSources")
  case True
  have "res = Inl InvalidTokenSource" "st' = st"
    using assms allocateToken_invalid[OF True, of st] by simp_all
  then show ?thesis by (rule invalid[OF True])
next
  case False
  then obtain src where src: "effectiveSource r = Some src" "src \<in> set tokenSources" by auto
  show ?thesis
  proof (cases "getDoctorById st (r_doctorId r)")
    case None
    have "res = Inl DoctorNotFound" "st' = st"
      using assms allocateToken_no_doctor[OF src None] by simp_all
    then show ?thesis by (rule no_doctor[OF src None])
  next
    case (Some doctor)
    note eq = allocateToken_eq[OF src Some]
    from assms eq obtain generated st1 where
      g: "generateSlotsForDay st doctor (r_date r) = Some (generated, st1)"
      by (auto split: option.splits)
    show ?thesis
    proof (cases "firstFree st1 (getSlotsForDoctorDay st1 (r_doctorId r) (r_date r))")
      case None
      have "res = Inr None" "st' = st1"
        using assms unfolding eq g by (simp_all add: None)
      then show ?thesis by (rule full[OF src Some g None])
    next
      case ff: (Some sl)
      have "res = Inr (Some (fst (createTokenInSlot st1 r src (getPriorityScore src) sl)))"
           "st' = snd (createTokenInSlot st1 r src (getPriorityScore src) sl)"
        using assms unfolding eq g by (simp_all add: ff)
      then show ?thesis by (rule placed[OF src Some g ff])
    qed
  qed
qed

section \<open>The emergency flag and the source\<close>

lemma createTokenInSlot_source_irrelevant:
  "createTokenInSlot st (r\<lparr>r_source := x\<rparr>) src score sl = createTokenInSlot st r src score sl"
  by (simp add: createTokenInSlot_def)

lemma emergencyPass_source_irrelevant:
  "emergencyPass st (r\<lparr>r_source := x\<rparr>) src score sls = emergencyPass st r src score sls"
  by (induction sls) (simp_all add: createTokenInSlot_source_irrelevant Let_def split: option.splits)

lemma getPriorityScore_EMERGENCY: "getPriorityScore ''EMERGENCY'' = 5"
  by (simp add: getPriorityScore_def priorities_def)

lemma set_tokenSources:
  "set tokenSources = {''EMERGENCY'', ''PAID'', ''FOLLOW_UP'', ''ONLINE'', ''WALK_IN''}"
  by (simp add: tokenSources_def)

lemma createTokenInSlot_fields:
  "source (fst (createTokenInSlot st r src score sl)) = src"
  "priorityScore (fst (createTokenInSlot st r src score sl)) = score"
  "status (fst (createTokenInSlot st r src score sl)) = SCHEDULED"
  "t_slotId (fst (createTokenInSlot st r src score sl)) = s_id sl"
  "t_id (fst (createTokenInSlot st r src score sl)) = nanoid_next st"
  "tokens (snd (createTokenInSlot st r src score sl)) = tokens st @ [fst (createTokenInSlot st r src score sl)]"
  "slots (snd (createTokenInSlot st r src score sl)) = slots st"
  "doctors (snd (createTokenInSlot st r src score sl)) = doctors st"
  "nanoid_next (snd (createTokenInSlot st r src score sl)) = Suc (nanoid_next st)"
  by (simp_all add: createTokenInSlot_def Let_def)

lemma alloc_storeA_emergency:
  "allocateToken storeA reqEmergency =
     Some (Inr (Some tokE), storeA\<lparr>tokens := [tokE], nanoid_next := 13\<rparr>)"
  by code_simp

lemma alloc_storeA_bogus:
  "allocateToken storeA reqBogus = Some (Inl InvalidTokenSource, storeA)"
  by code_simp

text \<open>
  Claim C9. With \<open>emergency = true\<close> the supplied source is not read: the call is the same
  for every source value, absent or invalid ones included; it is scored with the priority
  of EMERGENCY, which is 5; it never throws \<open>Invalid token source\<close>; and a token it creates
  has source EMERGENCY and score 5. With \<open>emergency = false\<close>, a source that is absent or
  outside the five known sources throws \<open>Invalid token source\<close> and the store is as before.
\<close>

theorem emergency_source_override:
  "(r_emergency r \<longrightarrow>
      allocateToken st (r\<lparr>r_source := x\<rparr>) = allocateToken st r
      \<and> effectiveSource r = Some ''EMERGENCY''
      \<and> getPriorityScore ''EMERGENCY'' = 5
      \<and> (\<forall>st'. allocateToken st r \<noteq> Some (Inl InvalidTokenSource, st'))
      \<and> (\<forall>tok st'. allocateToken st r = Some (Inr (Some tok), st') \<longrightarrow>
             source tok = ''EMERGENCY'' \<and> priorityScore tok = 5))
   \<and> (\<not> r_emergency r
        \<and> (\<forall>s. r_source r = Some s \<longrightarrow>
               s \<notin> {''EMERGENCY'', ''PAID'', ''FOLLOW_UP'', ''ONLINE'', ''WALK_IN''}) \<longrightarrow>
      allocateToken st r = Some (Inl InvalidTokenSource, st))"
proof (intro conjI impI allI)
  assume e: "r_emergency r"
  show "allocateToken st (r\<lparr>r_source := x\<rparr>) = allocateToken st r"
    using e by (simp add: allocateToken_def createTokenInSlot_source_irrelevant
        emergencyPass_source_irrelevant cong: option.case_cong)
  show eff: "effectiveSource r = Some ''EMERGENCY''"
    using e by (simp add: effectiveSource_def)
  show "getPriorityScore ''EMERGENCY'' = 5" by (rule getPriorityScore_EMERGENCY)
  have valid: "''EMERGENCY'' \<in> set tokenSources" by (simp add: tokenSources_def)
  { fix st'
    show "allocateToken st r \<noteq> Some (Inl InvalidTokenSource, st')"
    proof
      assume a: "allocateToken st r = Some (Inl InvalidTokenSource, st')"
      from a show False
        by (cases rule: allocateToken_cases) (use eff valid in auto) 
    qed }
  { fix tok st'
    assume a: "allocateToken st r = Some (Inr (Some tok), st')"
    from a have "source tok = ''EMERGENCY'' \<and> priorityScore tok = 5"
      by (cases rule: allocateToken_cases)
         (use eff in \<open>auto simp: createTokenInSlot_fields getPriorityScore_EMERGENCY\<close>)
    then show "source tok = ''EMERGENCY''" "priorityScore tok = 5" by simp_all }
next
  assume a: "\<not> r_emergency r
        \<and> (\<forall>s. r_source r = Some s \<longrightarrow>
               s \<notin> {''EMERGENCY'', ''PAID'', ''FOLLOW_UP'', ''ONLINE'', ''WALK_IN''})"
  then have "\<forall>s. effectiveSource r = Some s \<longrightarrow> s \<notin> set tokenSources"
    unfolding set_tokenSources by (simp add: effectiveSource_def)
  then show "allocateToken st r = Some (Inl InvalidTokenSource, st)"
    by (rule allocateToken_invalid)
qed

theorem emergency_source_override_witness:
  "r_emergency reqEmergency
   \<and> r_source reqEmergency = Some ''BOGUS''
   \<and> allocateToken storeA reqEmergency =
       Some (Inr (Some tokE), storeA\<lparr>tokens := [tokE], nanoid_next := 13\<rparr>)
   \<and> allocateToken storeA (reqEmergency\<lparr>r_source := None\<rparr>) = allocateToken storeA reqEmergency
   \<and> source tokE = ''EMERGENCY'' \<and> priorityScore tokE = 5
   \<and> \<not> r_emergency reqBogus
   \<and> allocateToken storeA reqBogus = Some (Inl InvalidTokenSource, storeA)"
proof -
  have e: "r_emergency reqEmergency" by (simp add: reqEmergency_def)
  have b: "\<not> r_emergency reqBogus
        \<and> (\<forall>s. r_source reqBogus = Some s \<longrightarrow>
               s \<notin> {''EMERGENCY'', ''PAID'', ''FOLLOW_UP'', ''ONLINE'', ''WALK_IN''})"
    by (simp add: reqBogus_def)
  show ?thesis
    using e b alloc_storeA_emergency
      emergency_source_override[of reqEmergency storeA None]
      emergency_source_override[of reqBogus storeA None]
    by (simp add: reqEmergency_def tokE_def)
qed

section \<open>Earliest fit\<close>

lemma getDoctorById_Some:
  "getDoctorById st i = Some d \<Longrightarrow> d_id d = i \<and> d \<in> set (doctors st)"
  by (auto simp: getDoctorById_def find_Some_iff)

lemma generateSlotsForDay_tokens:
  "generateSlotsForDay st doctor date = Some (g, st1) \<Longrightarrow>
     tokens st1 = tokens st \<and> doctors st1 = doctors st"
  by (auto simp: generateSlotsForDay_eq split: if_splits)

lemma scheduledCount_fresh_zero:
  assumes "\<forall>t\<in>set (tokens st). t_slotId t < n" "n \<le> i"
  shows "scheduledCount st i = 0"
  using assms by (auto simp: scheduledCount_def filter_empty_conv)

lemma freshSlots_id_ge:
  "s \<in> set (freshSlots doctor date n) \<Longrightarrow> n \<le> s_id s \<and> capacity s = maxPatientsPerSlot doctor"
  by (auto simp: freshSlots_def newSlot_def)

lemma firstFree_None_iff:
  "firstFree st sls = None \<longleftrightarrow> (\<forall>sl\<in>set sls. \<not> hasFree st sl)"
  by (auto simp: firstFree_find find_None_iff hasFree_def)

lemma firstFree_Some_iff:
  "firstFree st sls = Some sl \<longleftrightarrow>
     (\<exists>k<length sls. sl = sls ! k \<and> hasFree st (sls ! k) \<and> (\<forall>j<k. \<not> hasFree st (sls ! j)))"
  by (auto simp: firstFree_find find_Some_iff hasFree_def)

text \<open>
  After a first generation that pushed slots, the earliest slot of the day is free, when
  the doctor's capacity is positive and no token refers to an identifier not yet issued.
\<close>

lemma firstFree_after_generation:
  assumes ex: "existingSlots st (d_id doctor) date = []"
      and ne: "freshSlots doctor date (nanoid_next st) \<noteq> []"
      and cap: "0 < maxPatientsPerSlot doctor"
      and ids: "\<forall>t\<in>set (tokens st). t_slotId t < nanoid_next st"
      and st1: "st1 = st\<lparr>slots := slots st @ freshSlots doctor date (nanoid_next st),
                         nanoid_next := m\<rparr>"
  shows "firstFree st1 (getSlotsForDoctorDay st1 (d_id doctor) date) \<noteq> None"
proof -
  let ?new = "freshSlots doctor date (nanoid_next st)"
  have day: "set (getSlotsForDoctorDay st1 (d_id doctor) date) = set ?new"
  proof -
    have "existingSlots st1 (d_id doctor) date = ?new"
      unfolding st1 existingSlots_append_fresh using ex by simp
    then show ?thesis by (simp add: getSlotsForDoctorDay_def existingSlots_def)
  qed
  obtain s where s: "s \<in> set ?new" using ne by (cases ?new) auto
  have "tokens st1 = tokens st" by (simp add: st1)
  then have "scheduledCount st1 (s_id s) = 0"
    using scheduledCount_fresh_zero[of st "nanoid_next st" "s_id s"] ids freshSlots_id_ge[OF s]
    by (simp add: scheduledCount_def)
  then have "hasFree st1 s" using cap freshSlots_id_ge[OF s] by (simp add: hasFree_def)
  then show ?thesis using s day by (auto simp: firstFree_None_iff)
qed

lemma full_day_store_unchanged:
  assumes g: "generateSlotsForDay st doctor date = Some (generated, st1)"
      and ff: "firstFree st1 (getSlotsForDoctorDay st1 (d_id doctor) date) = None"
      and cap: "0 < maxPatientsPerSlot doctor"
      and ids: "\<forall>t\<in>set (tokens st). t_slotId t < nanoid_next st"
  shows "st1 = st"
proof (cases "existingSlots st (d_id doctor) date = []")
  case False
  with g show ?thesis by (auto simp: generateSlotsForDay_eq)
next
  case True
  let ?new = "freshSlots doctor date (nanoid_next st)"
  from g True have st1: "st1 = st\<lparr>slots := slots st @ ?new,
                                   nanoid_next := nanoid_next st + length ?new\<rparr>"
    by (auto simp: generateSlotsForDay_eq split: if_splits)
  have "?new = []"
  proof (rule ccontr)
    assume "?new \<noteq> []"
    from firstFree_after_generation[OF True this cap ids st1] ff show False by simp
  qed
  then show ?thesis using st1 by simp
qed

lemma generateSlotsForDay_returns:
  assumes "0 < slotDurationMinutes doctor"
  shows "\<exists>generated st1. generateSlotsForDay st doctor date = Some (generated, st1)"
proof (cases "existingSlots st (d_id doctor) date = []")
  case True
  then show ?thesis using assms by (simp add: generateSlotsForDay_eq)
next
  case False
  then show ?thesis by (simp add: generateSlotsForDay_eq)
qed

lemma alloc_storeA1_walkin:
  "allocateToken storeA1 reqWalkIn = Some (Inr (Some tokW2), storeA2)"
  by code_simp

lemma alloc_storeA2_walkin:
  "allocateToken storeA2 reqWalkIn = Some (Inr None, storeA2)"
  by code_simp

section \<open>Cancellation and no-show\<close>

lemma findIndex_Some:
  "findIndex P xs = Some i \<Longrightarrow> i < length xs \<and> P (xs ! i) \<and> (\<forall>j<i. \<not> P (xs ! j))"
proof (induction xs arbitrary: i)
  case Nil
  then show ?case by simp
next
  case (Cons x xs)
  show ?case
  proof (cases "P x")
    case True
    with Cons.prems show ?thesis by simp
  next
    case False
    with Cons.prems obtain k where k: "findIndex P xs = Some k" "i = Suc k" by auto
    from Cons.IH[OF k(1)] False k(2) show ?thesis
      by (auto simp: nth_Cons split: nat.splits)
  qed
qed

lemma findIndex_None: "findIndex P xs = None \<longleftrightarrow> (\<forall>x\<in>set xs. \<not> P x)"
  by (induction xs) auto

lemma findIndex_find: "find P xs = map_option (\<lambda>i. xs ! i) (findIndex P xs)"
  by (induction xs) (auto simp: option.map_comp comp_def)

lemma findIndex_cong_map:
  "map f xs = map f ys \<Longrightarrow> findIndex (\<lambda>x. Q (f x)) xs = findIndex (\<lambda>x. Q (f x)) ys"
proof (induction xs arbitrary: ys)
  case Nil
  then show ?case by simp
next
  case (Cons x xs)
  then obtain y ys' where ys: "ys = y # ys'" by (cases ys) auto
  with Cons.prems have "f x = f y" "map f xs = map f ys'" by simp_all
  with Cons.IH[of ys'] ys show ?case by simp
qed

lemma updateToken_simps:
  "slots (updateToken st i f) = slots st"
  "doctors (updateToken st i f) = doctors st"
  "nanoid_next (updateToken st i f) = nanoid_next st"
  "length (tokens (updateToken st i f)) = length (tokens st)"
  by (simp_all add: updateToken_def)

lemma updateToken_nth:
  "j < length (tokens st) \<Longrightarrow>
     tokens (updateToken st i f) ! j = (if j = i then f (tokens st ! i) else tokens st ! j)"
  by (simp add: updateToken_def nth_list_update)

lemma map_update_same: "(map f xs)[i := f (xs ! i)] = map f xs"
  by (simp add: map_update[symmetric])

lemma updateToken_map_slotId:
  "map t_id (tokens (updateToken st i (\<lambda>t. t\<lparr>t_slotId := x\<rparr>))) = map t_id (tokens st)"
  "map status (tokens (updateToken st i (\<lambda>t. t\<lparr>t_slotId := x\<rparr>))) = map status (tokens st)"
  by (simp_all add: updateToken_def map_update map_update_same)

text \<open>The rebalancing loop either changes nothing or reassigns one SCHEDULED token.\<close>

lemma rebalanceLoop_effect:
  "rebalanceLoop st freed sls = st \<or>
     (\<exists>c. c < length (tokens st) \<and> status (tokens st ! c) = SCHEDULED
          \<and> rebalanceLoop st freed sls = updateToken st c (\<lambda>t. t\<lparr>t_slotId := freed\<rparr>))"
proof (induction sls)
  case Nil
  then show ?case by simp
next
  case (Cons sl sls)
  show ?case
  proof (cases "getTokensForSlot st (s_id sl)")
    case Nil
    with Cons show ?thesis by simp
  next
    case (Cons c others)
    then have "c \<in> set (getTokensForSlot st (s_id sl))" by simp
    then have "c < length (tokens st) \<and> status (tokens st ! c) = SCHEDULED"
      by (simp add: set_getTokensForSlot)
    with Cons show ?thesis by auto
  qed
qed

lemma rebalanceAfterFreeSlot_effect:
  "rebalanceAfterFreeSlot st d date freed = st \<or>
     (\<exists>c. c < length (tokens st) \<and> status (tokens st ! c) = SCHEDULED
          \<and> rebalanceAfterFreeSlot st d date freed = updateToken st c (\<lambda>t. t\<lparr>t_slotId := freed\<rparr>))"
  using rebalanceLoop_effect
  by (auto simp: rebalanceAfterFreeSlot_def Let_def split: option.splits)

lemma rebalanceAfterFreeSlot_preserves:
  "map t_id (tokens (rebalanceAfterFreeSlot st d date freed)) = map t_id (tokens st)"
  "map status (tokens (rebalanceAfterFreeSlot st d date freed)) = map status (tokens st)"
  "slots (rebalanceAfterFreeSlot st d date freed) = slots st"
  "doctors (rebalanceAfterFreeSlot st d date freed) = doctors st"
  "nanoid_next (rebalanceAfterFreeSlot st d date freed) = nanoid_next st"
  using rebalanceAfterFreeSlot_effect[of st d date freed]
  by (auto simp: updateToken_map_slotId updateToken_simps)

lemma retire_fails_iff:
  "fst (retire s st tokenId) = None \<longleftrightarrow>
     (find (\<lambda>t. t_id t = tokenId) (tokens st) = None
      \<or> (\<exists>t. find (\<lambda>t. t_id t = tokenId) (tokens st) = Some t \<and> status t \<noteq> SCHEDULED))"
  by (auto simp: retire_def findIndex_find Let_def split: option.splits)

lemma retire_fails_unchanged:
  "fst (retire s st tokenId) = None \<Longrightarrow> snd (retire s st tokenId) = st"
  by (auto simp: retire_def Let_def split: option.splits if_splits)

lemma retire_success:
  assumes "retire s st tokenId = (Some t, st')"
  shows "\<exists>i. findIndex (\<lambda>t. t_id t = tokenId) (tokens st) = Some i
            \<and> status (tokens st ! i) = SCHEDULED
            \<and> st' = rebalanceAfterFreeSlot (updateToken st i (\<lambda>t. t\<lparr>status := s\<rparr>))
                       (t_doctorId (tokens st ! i)) (t_date (tokens st ! i)) (t_slotId (tokens st ! i))
            \<and> t = tokens st' ! i"
proof -
  from assms obtain i where i: "findIndex (\<lambda>t. t_id t = tokenId) (tokens st) = Some i"
    by (auto simp: retire_def split: option.splits)
  have il: "i < length (tokens st)" using findIndex_Some[OF i] by simp
  from assms i have sc: "status (tokens st ! i) = SCHEDULED"
    by (auto simp: retire_def split: if_splits)
  from assms i sc il show ?thesis
    by (auto simp: retire_def Let_def updateToken_nth)
qed

lemma retire_then_fails:
  assumes "retire s st tokenId = (Some t, st')" and "s \<noteq> SCHEDULED"
  shows "status t = s \<and> retire s' st' tokenId = (None, st')"
proof -
  from retire_success[OF assms(1)] obtain i where
    i: "findIndex (\<lambda>t. t_id t = tokenId) (tokens st) = Some i"
    and st': "st' = rebalanceAfterFreeSlot (updateToken st i (\<lambda>t. t\<lparr>status := s\<rparr>))
                       (t_doctorId (tokens st ! i)) (t_date (tokens st ! i)) (t_slotId (tokens st ! i))"
    and t: "t = tokens st' ! i"
    by blast
  let ?st1 = "updateToken st i (\<lambda>t. t\<lparr>status := s\<rparr>)"
  have il: "i < length (tokens st)" using findIndex_Some[OF i] by simp
  have ids1: "map t_id (tokens ?st1) = map t_id (tokens st)"
    by (simp add: updateToken_def map_update map_update_same)
  have ids: "map t_id (tokens st') = map t_id (tokens st)"
    unfolding st' rebalanceAfterFreeSlot_preserves ids1 ..
  have sts: "map status (tokens st') = map status (tokens ?st1)"
    unfolding st' rebalanceAfterFreeSlot_preserves ..
  have len: "length (tokens st') = length (tokens st)"
    using arg_cong[OF ids, of length] by simp
  have "status (tokens st' ! i) = map status (tokens st') ! i" using il len by simp
  also have "\<dots> = status (tokens ?st1 ! i)" unfolding sts using il by (simp add: updateToken_simps)
  also have "\<dots> = s" using il by (simp add: updateToken_nth)
  finally have si: "status (tokens st' ! i) = s" .
  have fi: "findIndex (\<lambda>t. t_id t = tokenId) (tokens st') = Some i"
    using findIndex_cong_map[OF ids, of "\<lambda>x. x = tokenId"] i by simp
  show ?thesis using si fi assms(2) t by (simp add: retire_def)
qed

text \<open>
  Claim C8. \<open>cancelToken\<close> and \<open>markNoShow\<close> return \<^verbatim>\<open>null\<close> exactly when no token has the
  identifier (\<^verbatim>\<open>find\<close> returns nothing) or the token found is not SCHEDULED, and then
  the store is as before. A call that succeeds returns the token with its new status,
  CANCELLED or NO_SHOW, and on the store it leaves both operations fail for that
  identifier and change nothing.
\<close>

theorem terminal_status_immutability:
  "((fst (cancelToken st tokenId) = None) =
      (find (\<lambda>t. t_id t = tokenId) (tokens st) = None
       \<or> (\<exists>t. find (\<lambda>t. t_id t = tokenId) (tokens st) = Some t \<and> status t \<noteq> SCHEDULED)))
   \<and> ((fst (markNoShow st tokenId) = None) =
      (find (\<lambda>t. t_id t = tokenId) (tokens st) = None
       \<or> (\<exists>t. find (\<lambda>t. t_id t = tokenId) (tokens st) = Some t \<and> status t \<noteq> SCHEDULED)))
   \<and> (fst (cancelToken st tokenId) = None \<longrightarrow> cancelToken st tokenId = (None, st))
   \<and> (fst (markNoShow st tokenId) = None \<longrightarrow> markNoShow st tokenId = (None, st))
   \<and> (\<forall>t st'. cancelToken st tokenId = (Some t, st') \<longrightarrow>
         status t = CANCELLED
         \<and> cancelToken st' tokenId = (None, st') \<and> markNoShow st' tokenId = (None, st'))
   \<and> (\<forall>t st'. markNoShow st tokenId = (Some t, st') \<longrightarrow>
         status t = NO_SHOW
         \<and> cancelToken st' tokenId = (None, st') \<and> markNoShow st' tokenId = (None, st'))"
proof (intro conjI allI impI)
  show "(fst (cancelToken st tokenId) = None) =
      (find (\<lambda>t. t_id t = tokenId) (tokens st) = None
       \<or> (\<exists>t. find (\<lambda>t. t_id t = tokenId) (tokens st) = Some t \<and> status t \<noteq> SCHEDULED))"
    unfolding cancelToken_def by (rule retire_fails_iff)
  show "(fst (markNoShow st tokenId) = None) =
      (find (\<lambda>t. t_id t = tokenId) (tokens st) = None
       \<or> (\<exists>t. find (\<lambda>t. t_id t = tokenId) (tokens st) = Some t \<and> status t \<noteq> SCHEDULED))"
    unfolding markNoShow_def by (rule retire_fails_iff)
next
  assume "fst (cancelToken st tokenId) = None"
  then show "cancelToken st tokenId = (None, st)"
    unfolding cancelToken_def using retire_fails_unchanged[of CANCELLED st tokenId]
    by (cases "retire CANCELLED st tokenId") simp
next
  assume "fst (markNoShow st tokenId) = None"
  then show "markNoShow st tokenId = (None, st)"
    unfolding markNoShow_def using retire_fails_unchanged[of NO_SHOW st tokenId]
    by (cases "retire NO_SHOW st tokenId") simp
next
  fix t st' assume a: "cancelToken st tokenId = (Some t, st')"
  then have r: "retire CANCELLED st tokenId = (Some t, st')" by (simp add: cancelToken_def)
  show "status t = CANCELLED" using retire_then_fails[OF r] by simp
  show "cancelToken st' tokenId = (None, st')"
    unfolding cancelToken_def using retire_then_fails[OF r, of CANCELLED] by simp
  show "markNoShow st' tokenId = (None, st')"
    unfolding markNoShow_def using retire_then_fails[OF r, of NO_SHOW] by simp
next
  fix t st' assume a: "markNoShow st tokenId = (Some t, st')"
  then have r: "retire NO_SHOW st tokenId = (Some t, st')" by (simp add: markNoShow_def)
  show "status t = NO_SHOW" using retire_then_fails[OF r] by simp
  show "cancelToken st' tokenId = (None, st')"
    unfolding cancelToken_def using retire_then_fails[OF r, of CANCELLED] by simp
  show "markNoShow st' tokenId = (None, st')"
    unfolding markNoShow_def using retire_then_fails[OF r, of NO_SHOW] by simp
qed

lemma cancel_storeA1: "cancelToken storeA1 12 = (Some tokW1c, storeA1c)"
  by code_simp

lemma noShow_storeA1: "markNoShow storeA1 12 = (Some tokW1n, storeA1n)"
  by code_simp

theorem terminal_status_immutability_witness:
  "cancelToken storeA1 12 = (Some tokW1c, storeA1c)
   \<and> status tokW1c = CANCELLED
   \<and> cancelToken storeA1c 12 = (None, storeA1c)
   \<and> markNoShow storeA1c 12 = (None, storeA1c)
   \<and> markNoShow storeA1 12 = (Some tokW1n, storeA1n)
   \<and> status tokW1n = NO_SHOW
   \<and> cancelToken storeA1n 12 = (None, storeA1n)
   \<and> markNoShow storeA1n 12 = (None, storeA1n)
   \<and> find (\<lambda>t. t_id t = 99) (tokens storeA1) = None
   \<and> cancelToken storeA1 99 = (None, storeA1)
   \<and> markNoShow storeA1 99 = (None, storeA1)"
proof -
  have f: "find (\<lambda>t. t_id t = 99) (tokens storeA1) = None" by code_simp
  note T = terminal_status_immutability[of storeA1 12]
  note T99 = terminal_status_immutability[of storeA1 99]
  note afterC = T[THEN conjunct2, THEN conjunct2, THEN conjunct2, THEN conjunct2, THEN conjunct1,
      rule_format, OF cancel_storeA1]
  note afterN = T[THEN conjunct2, THEN conjunct2, THEN conjunct2, THEN conjunct2, THEN conjunct2,
      rule_format, OF noShow_storeA1]
  have "fst (cancelToken storeA1 99) = None"
    using T99[THEN conjunct1] f by blast
  then have c: "cancelToken storeA1 99 = (None, storeA1)"
    using T99[THEN conjunct2, THEN conjunct2, THEN conjunct1] by blast
  have "fst (markNoShow storeA1 99) = None"
    using T99[THEN conjunct2, THEN conjunct1] f by blast
  then have n: "markNoShow storeA1 99 = (None, storeA1)"
    using T99[THEN conjunct2, THEN conjunct2, THEN conjunct2, THEN conjunct1] by blast
  show ?thesis using cancel_storeA1 noShow_storeA1 f afterC afterN c n by blast
qed

section \<open>Rebalancing\<close>

lemma hd_sort_key:
  assumes "xs \<noteq> []"
  shows "hd (sort_key f xs) \<in> set xs
         \<and> (\<forall>x\<in>set xs. f (hd (sort_key f xs)) \<le> f x)
         \<and> hd (filter (\<lambda>y. f y = f (hd (sort_key f xs))) xs) = hd (sort_key f xs)"
proof -
  have "sort_key f xs \<noteq> []" using assms by (metis length_sort length_0_conv)
  then obtain h t where ht: "sort_key f xs = h # t" by (cases "sort_key f xs") auto
  have s: "sorted (map f (h # t))" using sorted_sort_key[of f xs] ht by simp
  have set: "set xs = set (h # t)" using set_sort[of f xs] ht by simp
  have "filter (\<lambda>y. f y = f h) xs = filter (\<lambda>y. f y = f h) (h # t)"
    using sort_key_stable[of f "f h" xs] ht by simp
  then have "hd (filter (\<lambda>y. f y = f h) xs) = h" by simp
  moreover have "\<forall>x\<in>set xs. f h \<le> f x" using s set by auto
  moreover have "h \<in> set xs" using set by simp
  ultimately show ?thesis using ht by simp
qed

lemma hd_sorted_least:
  assumes "sorted (xs :: nat list)" "x \<in> set xs"
  shows "hd xs \<le> x"
  using assms by (cases xs) auto

lemma getTokensForSlot_hd_isTop:
  assumes "getTokensForSlot st slotId = c # others"
  shows "isTop st slotId c"
proof -
  let ?P = "\<lambda>i. t_slotId (tokens st ! i) = slotId \<and> status (tokens st ! i) = SCHEDULED"
  let ?f = "\<lambda>i. - priorityScore (tokens st ! i)"
  let ?xs = "filter ?P [0..<length (tokens st)]"
  have g: "sort_key ?f ?xs = c # others" using assms by (simp add: getTokensForSlot_def)
  then have ne: "?xs \<noteq> []" by auto
  have c: "hd (sort_key ?f ?xs) = c" using g by simp
  note h = hd_sort_key[OF ne, of ?f, unfolded c]
  have cin: "c \<in> set ?xs" using h by simp
  have "\<forall>i < length (tokens st). ?P i \<longrightarrow>
          priorityScore (tokens st ! i) \<le> priorityScore (tokens st ! c)
          \<and> (priorityScore (tokens st ! i) = priorityScore (tokens st ! c) \<longrightarrow> c \<le> i)"
  proof (intro allI impI)
    fix i assume i: "i < length (tokens st)" and p: "?P i"
    then have iin: "i \<in> set ?xs" by simp
    have le: "priorityScore (tokens st ! i) \<le> priorityScore (tokens st ! c)"
      using h iin by auto
    have "priorityScore (tokens st ! i) = priorityScore (tokens st ! c) \<longrightarrow> c \<le> i"
    proof
      assume e: "priorityScore (tokens st ! i) = priorityScore (tokens st ! c)"
      let ?ys = "filter (\<lambda>y. ?f y = ?f c) ?xs"
      have "sorted ?ys" by (simp add: sorted_wrt_filter)
      moreover have "i \<in> set ?ys" using iin e by simp
      ultimately have "hd ?ys \<le> i" by (rule hd_sorted_least)
      then show "c \<le> i" using h by simp
    qed
    with le show "priorityScore (tokens st ! i) \<le> priorityScore (tokens st ! c)
          \<and> (priorityScore (tokens st ! i) = priorityScore (tokens st ! c) \<longrightarrow> c \<le> i)" ..
  qed
  then show ?thesis using cin by (simp add: isTop_def)
qed

lemma getTokensForSlot_Nil_iff:
  "getTokensForSlot st slotId = [] \<longleftrightarrow> scheduledCount st slotId = 0"
  using length_getTokensForSlot[of st slotId] by auto

lemma rebalanceLoop_find:
  "rebalanceLoop st freed later =
     (case find (\<lambda>s. 0 < scheduledCount st (s_id s)) later of
        None \<Rightarrow> st
      | Some sl \<Rightarrow> updateToken st (hd (getTokensForSlot st (s_id sl))) (\<lambda>t. t\<lparr>t_slotId := freed\<rparr>))"
proof (induction later)
  case Nil
  then show ?case by simp
next
  case (Cons sl later)
  show ?case
  proof (cases "getTokensForSlot st (s_id sl)")
    case Nil
    then have "scheduledCount st (s_id sl) = 0" by (simp add: getTokensForSlot_Nil_iff)
    with Nil Cons show ?thesis by simp
  next
    case c: (Cons c others)
    then have "0 < scheduledCount st (s_id sl)"
      using getTokensForSlot_Nil_iff[of st "s_id sl"] by auto
    with c show ?thesis by simp
  qed
qed

lemma rebalance_unknown_slot:
  assumes "\<forall>s\<in>set (getSlotsForDoctorDay st doctorId date). s_id s \<noteq> freed"
  shows "rebalanceAfterFreeSlot st doctorId date freed = st"
proof -
  have "findIndex (\<lambda>s. s_id s = freed) (getSlotsForDoctorDay st doctorId date) = None"
    using assms by (simp add: findIndex_None)
  then show ?thesis by (simp add: rebalanceAfterFreeSlot_def)
qed

lemma rebalance_nothing_later:
  assumes k: "findIndex (\<lambda>s. s_id s = freed) (getSlotsForDoctorDay st doctorId date) = Some k"
      and none: "\<forall>j. k < j \<and> j < length (getSlotsForDoctorDay st doctorId date) \<longrightarrow>
                  scheduledCount st (s_id (getSlotsForDoctorDay st doctorId date ! j)) = 0"
  shows "rebalanceAfterFreeSlot st doctorId date freed = st"
proof -
  let ?day = "getSlotsForDoctorDay st doctorId date"
  have "find (\<lambda>s. 0 < scheduledCount st (s_id s)) (drop (k + 1) ?day) = None"
  proof -
    have "\<forall>x\<in>set (drop (k + 1) ?day). \<not> 0 < scheduledCount st (s_id x)"
    proof
      fix x assume "x \<in> set (drop (k + 1) ?day)"
      then obtain m where m: "m < length (drop (k + 1) ?day)" "x = drop (k + 1) ?day ! m"
        by (auto simp: in_set_conv_nth)
      then have "x = ?day ! (k + 1 + m)" "k + 1 + m < length ?day" by auto
      with none show "\<not> 0 < scheduledCount st (s_id x)" by simp
    qed
    then show ?thesis by (simp add: find_None_iff)
  qed
  then show ?thesis using k by (simp add: rebalanceAfterFreeSlot_def rebalanceLoop_find)
qed

lemma rebalance_first_later:
  assumes k: "findIndex (\<lambda>s. s_id s = freed) (getSlotsForDoctorDay st doctorId date) = Some k"
      and j: "k < j" "j < length (getSlotsForDoctorDay st doctorId date)"
      and occ: "0 < scheduledCount st (s_id (getSlotsForDoctorDay st doctorId date ! j))"
      and first: "\<forall>j'. k < j' \<and> j' < j \<longrightarrow>
                  scheduledCount st (s_id (getSlotsForDoctorDay st doctorId date ! j')) = 0"
  shows "\<exists>c. isTop st (s_id (getSlotsForDoctorDay st doctorId date ! j)) c
             \<and> rebalanceAfterFreeSlot st doctorId date freed =
                 st\<lparr>tokens := (tokens st)[c := (tokens st ! c)\<lparr>t_slotId := freed\<rparr>]\<rparr>"
proof -
  let ?day = "getSlotsForDoctorDay st doctorId date"
  let ?later = "drop (k + 1) ?day"
  let ?m = "j - (k + 1)"
  have m: "?m < length ?later" "?later ! ?m = ?day ! j" using j by auto
  have before: "\<forall>m' < ?m. \<not> 0 < scheduledCount st (s_id (?later ! m'))"
  proof (intro allI impI)
    fix m' assume "m' < ?m"
    then have "k < k + 1 + m' \<and> k + 1 + m' < j" "?later ! m' = ?day ! (k + 1 + m')"
      using j by auto
    with first show "\<not> 0 < scheduledCount st (s_id (?later ! m'))" by simp
  qed
  have f: "find (\<lambda>s. 0 < scheduledCount st (s_id s)) ?later = Some (?day ! j)"
    unfolding find_Some_iff using m occ before by (intro exI[of _ ?m]) simp
  obtain c others where c: "getTokensForSlot st (s_id (?day ! j)) = c # others"
    using occ getTokensForSlot_Nil_iff[of st "s_id (?day ! j)"]
    by (cases "getTokensForSlot st (s_id (?day ! j))") auto
  have "isTop st (s_id (?day ! j)) c" by (rule getTokensForSlot_hd_isTop[OF c])
  moreover have "rebalanceAfterFreeSlot st doctorId date freed =
                 st\<lparr>tokens := (tokens st)[c := (tokens st ! c)\<lparr>t_slotId := freed\<rparr>]\<rparr>"
    using k f c by (simp add: rebalanceAfterFreeSlot_def rebalanceLoop_find updateToken_def)
  ultimately show ?thesis by blast
qed

lemma retire_runs_rebalance:
  assumes "retire s st tokenId = (Some t, st')"
  shows "\<exists>i. findIndex (\<lambda>t. t_id t = tokenId) (tokens st) = Some i
            \<and> status (tokens st ! i) = SCHEDULED
            \<and> st' = rebalanceAfterFreeSlot
                       (st\<lparr>tokens := (tokens st)[i := (tokens st ! i)\<lparr>status := s\<rparr>]\<rparr>)
                       (t_doctorId (tokens st ! i)) (t_date (tokens st ! i)) (t_slotId (tokens st ! i))"
  using retire_success[OF assms] by (auto simp: updateToken_def)

text \<open>
  Claim C6. A successful \<open>cancelToken\<close> or \<open>markNoShow\<close> writes the new status and then
  runs the same procedure, \<open>rebalanceAfterFreeSlot\<close>, with the doctor, date and slot of the
  token. That procedure takes the slot sequence of the day: the slots of the store with
  that doctor and date, in chronological order (ascending start time). If no slot of
  the sequence has the freed identifier, the store is unchanged. Otherwise, with \<open>k\<close> the
  position of the freed slot: if no slot after position \<open>k\<close> has a SCHEDULED token, the
  store is unchanged; and if \<open>j\<close> is the first position after \<open>k\<close> whose slot has a
  SCHEDULED token, then exactly one token changes, the highest-priority SCHEDULED token of
  that slot (of equal scores the one stored first), and only its \<open>slotId\<close>, which becomes
  the freed identifier.
\<close>

theorem rebalance_after_cancel_and_no_show:
  "isDaySequence st doctorId date (getSlotsForDoctorDay st doctorId date)
   \<and> ((\<forall>s\<in>set (getSlotsForDoctorDay st doctorId date). s_id s \<noteq> freed) \<longrightarrow>
       rebalanceAfterFreeSlot st doctorId date freed = st)
   \<and> (\<forall>k. findIndex (\<lambda>s. s_id s = freed) (getSlotsForDoctorDay st doctorId date) = Some k \<longrightarrow>
         ((\<forall>j. k < j \<and> j < length (getSlotsForDoctorDay st doctorId date) \<longrightarrow>
                scheduledCount st (s_id (getSlotsForDoctorDay st doctorId date ! j)) = 0) \<longrightarrow>
            rebalanceAfterFreeSlot st doctorId date freed = st)
         \<and> (\<forall>j. k < j \<and> j < length (getSlotsForDoctorDay st doctorId date)
                  \<and> 0 < scheduledCount st (s_id (getSlotsForDoctorDay st doctorId date ! j))
                  \<and> (\<forall>j'. k < j' \<and> j' < j \<longrightarrow>
                        scheduledCount st (s_id (getSlotsForDoctorDay st doctorId date ! j')) = 0)
                \<longrightarrow>
                (\<exists>c. isTop st (s_id (getSlotsForDoctorDay st doctorId date ! j)) c
                     \<and> rebalanceAfterFreeSlot st doctorId date freed =
                         st\<lparr>tokens := (tokens st)[c := (tokens st ! c)\<lparr>t_slotId := freed\<rparr>]\<rparr>)))
   \<and> (\<forall>t st'. cancelToken st tokenId = (Some t, st') \<longrightarrow>
         (\<exists>i. findIndex (\<lambda>t. t_id t = tokenId) (tokens st) = Some i
              \<and> status (tokens st ! i) = SCHEDULED
              \<and> st' = rebalanceAfterFreeSlot
                         (st\<lparr>tokens := (tokens st)[i := (tokens st ! i)\<lparr>status := CANCELLED\<rparr>]\<rparr>)
                         (t_doctorId (tokens st ! i)) (t_date (tokens st ! i))
                         (t_slotId (tokens st ! i))))
   \<and> (\<forall>t st'. markNoShow st tokenId = (Some t, st') \<longrightarrow>
         (\<exists>i. findIndex (\<lambda>t. t_id t = tokenId) (tokens st) = Some i
              \<and> status (tokens st ! i) = SCHEDULED
              \<and> st' = rebalanceAfterFreeSlot
                         (st\<lparr>tokens := (tokens st)[i := (tokens st ! i)\<lparr>status := NO_SHOW\<rparr>]\<rparr>)
                         (t_doctorId (tokens st ! i)) (t_date (tokens st ! i))
                         (t_slotId (tokens st ! i))))"
proof (intro conjI allI impI)
  show "isDaySequence st doctorId date (getSlotsForDoctorDay st doctorId date)"
    by (rule getSlotsForDoctorDay_isDaySequence)
next
  assume "\<forall>s\<in>set (getSlotsForDoctorDay st doctorId date). s_id s \<noteq> freed"
  then show "rebalanceAfterFreeSlot st doctorId date freed = st"
    by (rule rebalance_unknown_slot)
next
  fix k
  assume k: "findIndex (\<lambda>s. s_id s = freed) (getSlotsForDoctorDay st doctorId date) = Some k"
    and "\<forall>j. k < j \<and> j < length (getSlotsForDoctorDay st doctorId date) \<longrightarrow>
                scheduledCount st (s_id (getSlotsForDoctorDay st doctorId date ! j)) = 0"
  then show "rebalanceAfterFreeSlot st doctorId date freed = st"
    by (rule rebalance_nothing_later)
next
  fix k j
  assume k: "findIndex (\<lambda>s. s_id s = freed) (getSlotsForDoctorDay st doctorId date) = Some k"
    and j: "k < j \<and> j < length (getSlotsForDoctorDay st doctorId date)
                  \<and> 0 < scheduledCount st (s_id (getSlotsForDoctorDay st doctorId date ! j))
                  \<and> (\<forall>j'. k < j' \<and> j' < j \<longrightarrow>
                        scheduledCount st (s_id (getSlotsForDoctorDay st doctorId date ! j')) = 0)"
  from j have j1: "k < j" and j2: "j < length (getSlotsForDoctorDay st doctorId date)"
    and j3: "0 < scheduledCount st (s_id (getSlotsForDoctorDay st doctorId date ! j))"
    and j4: "\<forall>j'. k < j' \<and> j' < j \<longrightarrow>
                        scheduledCount st (s_id (getSlotsForDoctorDay st doctorId date ! j')) = 0"
    by blast+
  show "\<exists>c. isTop st (s_id (getSlotsForDoctorDay st doctorId date ! j)) c
                     \<and> rebalanceAfterFreeSlot st doctorId date freed =
                         st\<lparr>tokens := (tokens st)[c := (tokens st ! c)\<lparr>t_slotId := freed\<rparr>]\<rparr>"
    by (rule rebalance_first_later[OF k j1 j2 j3 j4])
next
  fix t st' assume "cancelToken st tokenId = (Some t, st')"
  then have "retire CANCELLED st tokenId = (Some t, st')" by (simp add: cancelToken_def)
  then show "\<exists>i. findIndex (\<lambda>t. t_id t = tokenId) (tokens st) = Some i
              \<and> status (tokens st ! i) = SCHEDULED
              \<and> st' = rebalanceAfterFreeSlot
                         (st\<lparr>tokens := (tokens st)[i := (tokens st ! i)\<lparr>status := CANCELLED\<rparr>]\<rparr>)
                         (t_doctorId (tokens st ! i)) (t_date (tokens st ! i))
                         (t_slotId (tokens st ! i))"
    by (rule retire_runs_rebalance)
next
  fix t st' assume "markNoShow st tokenId = (Some t, st')"
  then have "retire NO_SHOW st tokenId = (Some t, st')" by (simp add: markNoShow_def)
  then show "\<exists>i. findIndex (\<lambda>t. t_id t = tokenId) (tokens st) = Some i
              \<and> status (tokens st ! i) = SCHEDULED
              \<and> st' = rebalanceAfterFreeSlot
                         (st\<lparr>tokens := (tokens st)[i := (tokens st ! i)\<lparr>status := NO_SHOW\<rparr>]\<rparr>)
                         (t_doctorId (tokens st ! i)) (t_date (tokens st ! i))
                         (t_slotId (tokens st ! i))"
    by (rule retire_runs_rebalance)
qed

lemma cancel_storeR: "cancelToken storeR 12 = (Some tokW1c, storeR2)"
  by code_simp

lemma rebalance_storeR1: "rebalanceAfterFreeSlot storeR1 1 day0 10 = storeR2"
  by code_simp

lemma noShow_storeR: "markNoShow storeR 12 = (Some tokW1n, storeR2n)"
  by code_simp

theorem rebalance_after_cancel_and_no_show_witness:
  "getSlotsForDoctorDay storeR1 1 day0 = [slotA1, slotA2]
   \<and> isDaySequence storeR1 1 day0 [slotA1, slotA2]
   \<and> findIndex (\<lambda>s. s_id s = 10) (getSlotsForDoctorDay storeR1 1 day0) = Some 0
   \<and> length (getSlotsForDoctorDay storeR1 1 day0) = 2
   \<and> s_id (getSlotsForDoctorDay storeR1 1 day0 ! 1) = 11
   \<and> 0 < scheduledCount storeR1 11
   \<and> isTop storeR1 11 1
   \<and> rebalanceAfterFreeSlot storeR1 1 day0 10 = storeR2
   \<and> (\<exists>c. isTop storeR1 11 c
           \<and> rebalanceAfterFreeSlot storeR1 1 day0 10 =
               storeR1\<lparr>tokens := (tokens storeR1)[c := (tokens storeR1 ! c)\<lparr>t_slotId := 10\<rparr>]\<rparr>)
   \<and> cancelToken storeR 12 = (Some tokW1c, storeR2)
   \<and> (\<exists>i. findIndex (\<lambda>t. t_id t = 12) (tokens storeR) = Some i
           \<and> storeR2 = rebalanceAfterFreeSlot
                 (storeR\<lparr>tokens := (tokens storeR)[i := (tokens storeR ! i)\<lparr>status := CANCELLED\<rparr>]\<rparr>)
                 (t_doctorId (tokens storeR ! i)) (t_date (tokens storeR ! i))
                 (t_slotId (tokens storeR ! i)))
   \<and> markNoShow storeR 12 = (Some tokW1n, storeR2n)
   \<and> (\<exists>i. findIndex (\<lambda>t. t_id t = 12) (tokens storeR) = Some i
           \<and> storeR2n = rebalanceAfterFreeSlot
                 (storeR\<lparr>tokens := (tokens storeR)[i := (tokens storeR ! i)\<lparr>status := NO_SHOW\<rparr>]\<rparr>)
                 (t_doctorId (tokens storeR ! i)) (t_date (tokens storeR ! i))
                 (t_slotId (tokens storeR ! i)))
   \<and> findIndex (\<lambda>s. s_id s = 11) (getSlotsForDoctorDay storeR1 1 day0) = Some 1
   \<and> rebalanceAfterFreeSlot storeR1 1 day0 11 = storeR1
   \<and> rebalanceAfterFreeSlot storeR1 1 day0 99 = storeR1"
proof -
  have k: "findIndex (\<lambda>s. s_id s = 10) (getSlotsForDoctorDay storeR1 1 day0) = Some 0"
    by code_simp
  have k1: "findIndex (\<lambda>s. s_id s = 11) (getSlotsForDoctorDay storeR1 1 day0) = Some 1"
    by code_simp
  have l: "length (getSlotsForDoctorDay storeR1 1 day0) = 2" by code_simp
  have s1: "s_id (getSlotsForDoctorDay storeR1 1 day0 ! 1) = 11" by code_simp
  have occ: "0 < scheduledCount storeR1 11" by code_simp
  have top: "isTop storeR1 11 1"
    by (simp add: isTop_def storeR1_def tokO2_def tokW1c_def less_Suc_eq)
  have unk: "\<forall>s\<in>set (getSlotsForDoctorDay storeR1 1 day0). s_id s \<noteq> 99" by code_simp
  note T = rebalance_after_cancel_and_no_show[of storeR1 1 day0 10 12]
  have dayR: "getSlotsForDoctorDay storeR1 1 day0 = [slotA1, slotA2]" by code_simp
  have seq: "isDaySequence storeR1 1 day0 [slotA1, slotA2]"
    using T[THEN conjunct1] unfolding dayR .
  have j: "(0::nat) < 1 \<and> 1 < length (getSlotsForDoctorDay storeR1 1 day0)
                  \<and> 0 < scheduledCount storeR1 (s_id (getSlotsForDoctorDay storeR1 1 day0 ! 1))
                  \<and> (\<forall>j'. 0 < j' \<and> j' < 1 \<longrightarrow>
                        scheduledCount storeR1 (s_id (getSlotsForDoctorDay storeR1 1 day0 ! j')) = 0)"
    using l s1 occ by simp
  note move = T[THEN conjunct2, THEN conjunct2, THEN conjunct1, rule_format, OF k, THEN conjunct2, rule_format, OF j,
      unfolded s1]
  note T2 = rebalance_after_cancel_and_no_show[of storeR 1 day0 10 12]
  have canc: "\<exists>i. findIndex (\<lambda>t. t_id t = 12) (tokens storeR) = Some i
           \<and> storeR2 = rebalanceAfterFreeSlot
                 (storeR\<lparr>tokens := (tokens storeR)[i := (tokens storeR ! i)\<lparr>status := CANCELLED\<rparr>]\<rparr>)
                 (t_doctorId (tokens storeR ! i)) (t_date (tokens storeR ! i))
                 (t_slotId (tokens storeR ! i))"
    using T2[THEN conjunct2, THEN conjunct2, THEN conjunct2, THEN conjunct1, rule_format, OF cancel_storeR]
    by blast
  have nosh: "\<exists>i. findIndex (\<lambda>t. t_id t = 12) (tokens storeR) = Some i
           \<and> storeR2n = rebalanceAfterFreeSlot
                 (storeR\<lparr>tokens := (tokens storeR)[i := (tokens storeR ! i)\<lparr>status := NO_SHOW\<rparr>]\<rparr>)
                 (t_doctorId (tokens storeR ! i)) (t_date (tokens storeR ! i))
                 (t_slotId (tokens storeR ! i))"
    using T2[THEN conjunct2, THEN conjunct2, THEN conjunct2, THEN conjunct2, rule_format, OF noShow_storeR]
    by blast
  note T3 = rebalance_after_cancel_and_no_show[of storeR1 1 day0 99 12]
  have u: "rebalanceAfterFreeSlot storeR1 1 day0 99 = storeR1"
    using T3[THEN conjunct2, THEN conjunct1] unk by blast
  note T4 = rebalance_after_cancel_and_no_show[of storeR1 1 day0 11 12]
  have none: "\<forall>j. 1 < j \<and> j < length (getSlotsForDoctorDay storeR1 1 day0) \<longrightarrow>
                scheduledCount storeR1 (s_id (getSlotsForDoctorDay storeR1 1 day0 ! j)) = 0"
    using l by simp
  have last: "rebalanceAfterFreeSlot storeR1 1 day0 11 = storeR1"
    using T4[THEN conjunct2, THEN conjunct2, THEN conjunct1, rule_format, OF k1, THEN conjunct1] none by blast
  show ?thesis
    using dayR seq k k1 l s1 occ top rebalance_storeR1 cancel_storeR noShow_storeR move canc nosh
      u last
    by blast
qed

section \<open>The capacity invariant\<close>

lemma length_filter_update:
  "i < length xs \<Longrightarrow>
     length (filter P (xs[i := y])) + (if P (xs ! i) then 1 else 0) =
     length (filter P xs) + (if P y then 1 else 0)"
proof (induction xs arbitrary: i)
  case Nil
  then show ?case by simp
next
  case (Cons x xs)
  show ?case
  proof (cases i)
    case 0
    then show ?thesis by simp
  next
    case (Suc k)
    with Cons.prems have "k < length xs" by simp
    from Cons.IH[OF this] Suc show ?thesis by simp
  qed
qed

lemma scheduledCount_updateToken:
  assumes "i < length (tokens st)"
  shows "scheduledCount (updateToken st i f) sid
           + (if t_slotId (tokens st ! i) = sid \<and> status (tokens st ! i) = SCHEDULED then 1 else 0) =
         scheduledCount st sid
           + (if t_slotId (f (tokens st ! i)) = sid \<and> status (f (tokens st ! i)) = SCHEDULED then 1 else 0)"
  unfolding scheduledCount_def updateToken_def
  using length_filter_update[OF assms, of "\<lambda>t. t_slotId t = sid \<and> status t = SCHEDULED" "f (tokens st ! i)"]
  by simp

lemma scheduledCount_tokens_cong:
  "tokens st' = tokens st \<Longrightarrow> scheduledCount st' sid = scheduledCount st sid"
  by (simp add: scheduledCount_def)

lemma scheduledCount_create:
  "scheduledCount (snd (createTokenInSlot st r src score sl)) sid =
     scheduledCount st sid + (if sid = s_id sl then 1 else 0)"
  by (auto simp: scheduledCount_def createTokenInSlot_def Let_def)

lemma storeInv_initial: "slots st = [] \<Longrightarrow> tokens st = [] \<Longrightarrow> storeInv st"
  by (simp add: storeInv_def)

lemma storeInv_host:
  assumes "storeInv st" "nanoid_next st \<le> n"
  shows "storeInv (st\<lparr>doctors := ds, nanoid_next := n\<rparr>)"
  using assms unfolding storeInv_def scheduledCount_def by fastforce

lemma map_s_id_freshSlots:
  "map s_id (freshSlots doctor date n) = [n..<n + length (freshSlots doctor date n)]"
proof -
  have "map s_id (freshSlots doctor date n) =
        map (\<lambda>k. n + k) [0..<length (freshSlots doctor date n)]"
    by (simp add: freshSlots_def newSlot_def comp_def)
  also have "\<dots> = [n..<n + length (freshSlots doctor date n)]"
    using map_add_upt[of n "length (freshSlots doctor date n)"] by (simp add: add.commute)
  finally show ?thesis .
qed

lemma storeInv_generate:
  assumes inv: "storeInv st" and g: "generateSlotsForDay st doctor date = Some (generated, st')"
  shows "storeInv st'"
proof (cases "existingSlots st (d_id doctor) date = []")
  case False
  with g have "st' = st" by (auto simp: generateSlotsForDay_eq)
  with inv show ?thesis by simp
next
  case True
  let ?n = "nanoid_next st"
  let ?new = "freshSlots doctor date ?n"
  from g True have st': "st' = st\<lparr>slots := slots st @ ?new, nanoid_next := ?n + length ?new\<rparr>"
    by (auto simp: generateSlotsForDay_eq split: if_splits)
  have ids: "map s_id ?new = [?n..<?n + length ?new]" by (rule map_s_id_freshSlots)
  have newid: "\<forall>s\<in>set ?new. ?n \<le> s_id s \<and> s_id s < ?n + length ?new"
  proof
    fix s assume "s \<in> set ?new"
    then have "s_id s \<in> set (map s_id ?new)" by simp
    then show "?n \<le> s_id s \<and> s_id s < ?n + length ?new" unfolding ids by simp
  qed
  have d: "distinct (map s_id (slots st @ ?new))"
  proof -
    have "distinct (map s_id ?new)" unfolding ids by simp
    moreover have "set (map s_id (slots st)) \<inter> set (map s_id ?new) = {}"
      using inv newid unfolding storeInv_def by fastforce
    ultimately show ?thesis using inv by (simp add: storeInv_def)
  qed
  have cnt: "\<And>sid. scheduledCount st' sid = scheduledCount st sid"
    by (rule scheduledCount_tokens_cong) (simp add: st')
  have zero: "\<forall>s\<in>set ?new. scheduledCount st (s_id s) = 0"
    using scheduledCount_fresh_zero[of st ?n] inv newid by (simp add: storeInv_def)
  show ?thesis
    unfolding storeInv_def cnt
    using d inv newid zero unfolding storeInv_def by (auto simp: st')
qed

lemma storeInv_create:
  assumes inv: "storeInv st" and sl: "sl \<in> set (slots st)" and free: "hasFree st sl"
  shows "storeInv (snd (createTokenInSlot st r src score sl))"
proof -
  let ?st' = "snd (createTokenInSlot st r src score sl)"
  have cap: "\<forall>s\<in>set (slots st). scheduledCount ?st' (s_id s) \<le> capacity s"
  proof
    fix s assume s: "s \<in> set (slots st)"
    show "scheduledCount ?st' (s_id s) \<le> capacity s"
    proof (cases "s_id s = s_id sl")
      case True
      then have "s = sl" using inv s sl by (auto simp: storeInv_def distinct_map inj_on_def)
      then show ?thesis using free by (simp add: scheduledCount_create hasFree_def)
    next
      case False
      then show ?thesis using inv s by (simp add: scheduledCount_create storeInv_def)
    qed
  qed
  have "s_id sl < nanoid_next st" using inv sl by (simp add: storeInv_def)
  then show ?thesis
    using inv cap unfolding storeInv_def
    by (auto simp: createTokenInSlot_fields less_Suc_eq)
qed

lemma getSlotsForDoctorDay_subset:
  "set (getSlotsForDoctorDay st doctorId date) \<subseteq> set (slots st)"
  by (auto simp: getSlotsForDoctorDay_def)

lemma firstFree_Some_mem:
  "firstFree st sls = Some sl \<Longrightarrow> sl \<in> set sls \<and> hasFree st sl"
  by (auto simp: firstFree_Some_iff)

lemma storeInv_allocate:
  assumes inv: "storeInv st" and a: "allocateToken st r = Some (res, st')"
  shows "storeInv st'"
  using a
proof (cases rule: allocateToken_cases)
  case invalid
  with inv show ?thesis by simp
next
  case (no_doctor src)
  with inv show ?thesis by simp
next
  case (full src doctor generated st1)
  with storeInv_generate[OF inv full(4)] show ?thesis by simp
next
  case (placed src doctor generated st1 sl)
  have inv1: "storeInv st1" by (rule storeInv_generate[OF inv placed(4)])
  from firstFree_Some_mem[OF placed(5)] getSlotsForDoctorDay_subset
  have "sl \<in> set (slots st1)" "hasFree st1 sl" by auto
  from storeInv_create[OF inv1 this] placed(7) show ?thesis by simp
qed

lemma storeInv_retire:
  assumes inv: "storeInv st" and r: "retire s st tokenId = (res, st')" and s: "s \<noteq> SCHEDULED"
  shows "storeInv st'"
proof (cases res)
  case None
  then have "st' = st" using retire_fails_unchanged[of s st tokenId] r by simp
  with inv show ?thesis by simp
next
  case (Some t)
  with r have r': "retire s st tokenId = (Some t, st')" by simp
  from retire_success[OF r'] obtain i where
    i: "findIndex (\<lambda>t. t_id t = tokenId) (tokens st) = Some i"
    and sc: "status (tokens st ! i) = SCHEDULED"
    and st': "st' = rebalanceAfterFreeSlot (updateToken st i (\<lambda>t. t\<lparr>status := s\<rparr>))
                       (t_doctorId (tokens st ! i)) (t_date (tokens st ! i)) (t_slotId (tokens st ! i))"
    by blast
  let ?st1 = "updateToken st i (\<lambda>t. t\<lparr>status := s\<rparr>)"
  let ?freed = "t_slotId (tokens st ! i)"
  have il: "i < length (tokens st)" using findIndex_Some[OF i] by simp
  have c1: "\<And>sid. scheduledCount ?st1 sid + (if ?freed = sid then 1 else 0) = scheduledCount st sid"
    using scheduledCount_updateToken[OF il, of "\<lambda>t. t\<lparr>status := s\<rparr>"] sc s by simp
  have fr: "?freed < nanoid_next st" using inv il by (simp add: storeInv_def)
  have ids1: "\<forall>t\<in>set (tokens ?st1). t_slotId t < nanoid_next st"
  proof
    fix t assume "t \<in> set (tokens ?st1)"
    then have "t \<in> insert ((tokens st ! i)\<lparr>status := s\<rparr>) (set (tokens st))"
      using set_update_subset_insert[of "tokens st" i] by (auto simp: updateToken_def)
    then show "t_slotId t < nanoid_next st" using inv fr by (auto simp: storeInv_def)
  qed
  have inv1: "storeInv ?st1"
    unfolding storeInv_def updateToken_simps
  proof (intro conjI)
    show "distinct (map s_id (slots st))" "\<forall>s\<in>set (slots st). s_id s < nanoid_next st"
      using inv by (simp_all add: storeInv_def)
    show "\<forall>t\<in>set (tokens ?st1). t_slotId t < nanoid_next st" by (rule ids1)
    show "\<forall>s\<in>set (slots st). scheduledCount ?st1 (s_id s) \<le> capacity s"
    proof
      fix sl assume "sl \<in> set (slots st)"
      then have "scheduledCount st (s_id sl) \<le> capacity sl" using inv by (simp add: storeInv_def)
      then show "scheduledCount ?st1 (s_id sl) \<le> capacity sl" using c1[of "s_id sl"] by linarith
    qed
  qed
  from rebalanceAfterFreeSlot_effect[of ?st1 "t_doctorId (tokens st ! i)" "t_date (tokens st ! i)" ?freed]
  show ?thesis
  proof
    assume "rebalanceAfterFreeSlot ?st1 (t_doctorId (tokens st ! i)) (t_date (tokens st ! i)) ?freed = ?st1"
    with st' inv1 show ?thesis by simp
  next
    assume "\<exists>c. c < length (tokens ?st1) \<and> status (tokens ?st1 ! c) = SCHEDULED
          \<and> rebalanceAfterFreeSlot ?st1 (t_doctorId (tokens st ! i)) (t_date (tokens st ! i)) ?freed
              = updateToken ?st1 c (\<lambda>t. t\<lparr>t_slotId := ?freed\<rparr>)"
    then obtain c where c: "c < length (tokens ?st1)" "status (tokens ?st1 ! c) = SCHEDULED"
      and mv: "st' = updateToken ?st1 c (\<lambda>t. t\<lparr>t_slotId := ?freed\<rparr>)"
      using st' by auto
    have c2: "\<And>sid. scheduledCount st' sid \<le> scheduledCount ?st1 sid + (if ?freed = sid then 1 else 0)"
    proof -
      fix sid
      show "scheduledCount st' sid \<le> scheduledCount ?st1 sid + (if ?freed = sid then 1 else 0)"
        using scheduledCount_updateToken[OF c(1), of "\<lambda>t. t\<lparr>t_slotId := ?freed\<rparr>" sid] c(2)
        unfolding mv by (simp split: if_splits)
    qed
    show ?thesis
      unfolding storeInv_def mv updateToken_simps
    proof (intro conjI)
      show "distinct (map s_id (slots st))" "\<forall>s\<in>set (slots st). s_id s < nanoid_next st"
        using inv by (simp_all add: storeInv_def)
      show "\<forall>t\<in>set (tokens (updateToken ?st1 c (\<lambda>t. t\<lparr>t_slotId := ?freed\<rparr>))). t_slotId t < nanoid_next st"
      proof
        fix t assume "t \<in> set (tokens (updateToken ?st1 c (\<lambda>t. t\<lparr>t_slotId := ?freed\<rparr>)))"
        then have "t \<in> insert ((tokens ?st1 ! c)\<lparr>t_slotId := ?freed\<rparr>) (set (tokens ?st1))"
          using set_update_subset_insert[of "tokens ?st1" c] by (auto simp: updateToken_def)
        then show "t_slotId t < nanoid_next st" using ids1 fr by auto
      qed
      show "\<forall>sl\<in>set (slots st).
              scheduledCount (updateToken ?st1 c (\<lambda>t. t\<lparr>t_slotId := ?freed\<rparr>)) (s_id sl) \<le> capacity sl"
      proof
        fix sl assume "sl \<in> set (slots st)"
        then have "scheduledCount st (s_id sl) \<le> capacity sl" using inv by (simp add: storeInv_def)
        then show "scheduledCount (updateToken ?st1 c (\<lambda>t. t\<lparr>t_slotId := ?freed\<rparr>)) (s_id sl) \<le> capacity sl"
          using c1[of "s_id sl"] c2[of "s_id sl"] unfolding mv by linarith
      qed
    qed
  qed
qed

lemma reachable_storeInv: "reachable st \<Longrightarrow> storeInv st"
proof (induction rule: reachable.induct)
  case (initial st)
  then show ?case by (rule storeInv_initial)
next
  case (host st n ds)
  then show ?case by (simp add: storeInv_host)
next
  case (generate st doctor date generated st')
  then show ?case by (simp add: storeInv_generate)
next
  case (allocate st r res st')
  then show ?case by (simp add: storeInv_allocate)
next
  case (cancel st tokenId cancelled st')
  then show ?case using storeInv_retire[of st CANCELLED tokenId cancelled st']
    by (simp add: cancelToken_def)
next
  case (noShow st tokenId marked st')
  then show ?case using storeInv_retire[of st NO_SHOW tokenId marked st']
    by (simp add: markNoShow_def)
qed

text \<open>Moving a SCHEDULED token into a slot with free capacity keeps the invariant.\<close>

lemma storeInv_move:
  assumes inv: "storeInv st" and c: "c < length (tokens st)"
      and target: "target \<in> set (slots st)" and free: "hasFree st target"
  shows "storeInv (updateToken st c (\<lambda>t. t\<lparr>t_slotId := s_id target\<rparr>))"
proof -
  let ?st' = "updateToken st c (\<lambda>t. t\<lparr>t_slotId := s_id target\<rparr>)"
  have le: "\<And>sid. scheduledCount ?st' sid \<le> scheduledCount st sid + (if s_id target = sid then 1 else 0)"
  proof -
    fix sid
    let ?new = "(tokens st ! c)\<lparr>t_slotId := s_id target\<rparr>"
    have "scheduledCount ?st' sid \<le>
            scheduledCount st sid + (if t_slotId ?new = sid \<and> status ?new = SCHEDULED then 1 else 0)"
      using scheduledCount_updateToken[OF c, of "\<lambda>t. t\<lparr>t_slotId := s_id target\<rparr>" sid]
      by linarith
    also have "\<dots> \<le> scheduledCount st sid + (if s_id target = sid then 1 else 0)"
      by simp
    finally show "scheduledCount ?st' sid \<le> scheduledCount st sid + (if s_id target = sid then 1 else 0)" .
  qed
  have tid: "s_id target < nanoid_next st" using inv target by (simp add: storeInv_def)
  show ?thesis
    unfolding storeInv_def updateToken_simps
  proof (intro conjI)
    show "distinct (map s_id (slots st))" "\<forall>s\<in>set (slots st). s_id s < nanoid_next st"
      using inv by (simp_all add: storeInv_def)
    show "\<forall>t\<in>set (tokens ?st'). t_slotId t < nanoid_next st"
    proof
      fix t assume "t \<in> set (tokens ?st')"
      then have "t \<in> insert ((tokens st ! c)\<lparr>t_slotId := s_id target\<rparr>) (set (tokens st))"
        using set_update_subset_insert[of "tokens st" c] by (auto simp: updateToken_def)
      then show "t_slotId t < nanoid_next st" using inv tid by (auto simp: storeInv_def)
    qed
    show "\<forall>s\<in>set (slots st). scheduledCount ?st' (s_id s) \<le> capacity s"
    proof
      fix s assume s: "s \<in> set (slots st)"
      show "scheduledCount ?st' (s_id s) \<le> capacity s"
      proof (cases "s_id s = s_id target")
        case True
        then have "s = target" using inv s target by (auto simp: storeInv_def distinct_map inj_on_def)
        then show ?thesis using free le[of "s_id target"] by (simp add: hasFree_def)
      next
        case False
        have "scheduledCount st (s_id s) \<le> capacity s" using inv s by (simp add: storeInv_def)
        then show ?thesis using False le[of "s_id s"] by simp
      qed
    qed
  qed
qed

text \<open>
  The emergency path keeps the invariant from every store that has it, whether or not a
  first loop ran before: the displaced token goes to a slot with free capacity, and the
  new token takes the place it left.
\<close>

lemma storeInv_emergencyPass:
  assumes "storeInv st" and "set day \<subseteq> set (slots st)"
      and "emergencyPass st r src score day = Some (tok, st')"
  shows "storeInv st'"
  using assms
proof (induction day)
  case Nil
  then show ?case by simp
next
  case (Cons sl later)
  let ?scheduled = "getTokensForSlot st (s_id sl)"
  have slin: "sl \<in> set (slots st)" and latersub: "set later \<subseteq> set (slots st)"
    using Cons.prems(2) by auto
  show ?case
  proof (cases "length ?scheduled < capacity sl")
    case True
    then have "hasFree st sl" by (simp add: hasFree_def length_getTokensForSlot)
    from storeInv_create[OF Cons.prems(1) slin this, of r src score]
    show ?thesis using Cons.prems(3) True by (simp add: Let_def)
  next
    case full: False
    show ?thesis
    proof (cases "?scheduled = [] \<or> score \<le> priorityScore (tokens st ! last ?scheduled)")
      case True
      then have "emergencyPass st r src score later = Some (tok, st')"
        using Cons.prems(3) full by (auto simp: Let_def)
      from Cons.IH[OF Cons.prems(1) latersub this] show ?thesis .
    next
      case bump: False
      show ?thesis
      proof (cases "firstFree st later")
        case None
        then have "emergencyPass st r src score later = Some (tok, st')"
          using Cons.prems(3) full bump by (auto simp: Let_def)
        from Cons.IH[OF Cons.prems(1) latersub this] show ?thesis .
      next
        case (Some laterSlot)
        let ?lowest = "last ?scheduled"
        let ?st1 = "updateToken st ?lowest (\<lambda>t. t\<lparr>t_slotId := s_id laterSlot\<rparr>)"
        have st': "st' = snd (createTokenInSlot ?st1 r src score sl)"
          using Cons.prems(3) full bump Some by (auto simp: Let_def)
        have lowin: "?lowest \<in> set ?scheduled" using bump by simp
        then have low: "?lowest < length (tokens st)" "t_slotId (tokens st ! ?lowest) = s_id sl"
          "status (tokens st ! ?lowest) = SCHEDULED"
          by (simp_all add: set_getTokensForSlot)
        have ls: "laterSlot \<in> set (slots st)" "hasFree st laterSlot"
          using firstFree_Some_mem[OF Some] latersub by auto
        have nfree: "\<not> hasFree st sl" using full by (simp add: hasFree_def length_getTokensForSlot)
        have neq: "s_id laterSlot \<noteq> s_id sl"
        proof
          assume "s_id laterSlot = s_id sl"
          then have "laterSlot = sl"
            using Cons.prems(1) ls(1) slin by (auto simp: storeInv_def distinct_map inj_on_def)
          with ls(2) nfree show False by simp
        qed
        have inv1: "storeInv ?st1" by (rule storeInv_move[OF Cons.prems(1) low(1) ls])
        have "scheduledCount ?st1 (s_id sl) + 1 = scheduledCount st (s_id sl)"
          using scheduledCount_updateToken[OF low(1), of "\<lambda>t. t\<lparr>t_slotId := s_id laterSlot\<rparr>" "s_id sl"]
            low neq by simp
        moreover have "scheduledCount st (s_id sl) \<le> capacity sl"
          using Cons.prems(1) slin by (simp add: storeInv_def)
        ultimately have free1: "hasFree ?st1 sl" by (simp add: hasFree_def)
        have "sl \<in> set (slots ?st1)" using slin by (simp add: updateToken_simps)
        from storeInv_create[OF inv1 this free1] st' show ?thesis by simp
      qed
    qed
  qed
qed

lemma alloc_storeA_walkin: "allocateToken storeA reqWalkIn = Some (Inr (Some tokW1), storeA1)"
  by code_simp

lemma reachable_storeA1: "reachable storeA1"
proof -
  have "reachable store0" by (rule reachable.initial) (simp_all add: store0_def)
  then have "reachable storeA" using generate_store0_docA by (rule reachable.generate)
  then show ?thesis using alloc_storeA_walkin by (rule reachable.allocate)
qed

lemma emergencyPass_storeA1:
  "emergencyPass storeA1 reqEmergency ''EMERGENCY'' 5 [slotA1, slotA2] = Some (tokE1, storeD)"
  by code_simp

text \<open>
  Claim C1. In every store reachable from a store without slots and tokens by
  \<open>generateSlotsForDay\<close>, \<open>allocateToken\<close>, \<open>cancelToken\<close> and \<open>markNoShow\<close> (and by the
  host's changes to the doctors), every slot has at most \<open>capacity\<close> SCHEDULED tokens
  referring to it. The rebalancing move is part of \<open>cancelToken\<close> and \<open>markNoShow\<close>. The
  displacement move of the emergency path keeps the bound even when the path is run on
  its own on a reachable store, over any slots of the store.
\<close>

theorem capacity_invariant:
  assumes "reachable st"
  shows "(\<forall>s\<in>set (slots st). scheduledCount st (s_id s) \<le> capacity s)
         \<and> (\<forall>r src score day tok st'.
               set day \<subseteq> set (slots st) \<and> emergencyPass st r src score day = Some (tok, st') \<longrightarrow>
               (\<forall>s\<in>set (slots st'). scheduledCount st' (s_id s) \<le> capacity s))"
proof -
  have inv: "storeInv st" by (rule reachable_storeInv[OF assms])
  then have A: "\<forall>s\<in>set (slots st). scheduledCount st (s_id s) \<le> capacity s"
    by (simp add: storeInv_def)
  have B: "\<forall>r src score day tok st'.
               set day \<subseteq> set (slots st) \<and> emergencyPass st r src score day = Some (tok, st') \<longrightarrow>
               (\<forall>s\<in>set (slots st'). scheduledCount st' (s_id s) \<le> capacity s)"
  proof (intro allI impI)
    fix r src score day tok st'
    assume "set day \<subseteq> set (slots st) \<and> emergencyPass st r src score day = Some (tok, st')"
    then have "storeInv st'" using storeInv_emergencyPass[OF inv] by blast
    then show "\<forall>s\<in>set (slots st'). scheduledCount st' (s_id s) \<le> capacity s"
      by (simp add: storeInv_def)
  qed
  from A B show ?thesis ..
qed

theorem capacity_invariant_witness:
  "reachable storeA1
   \<and> slotA1 \<in> set (slots storeA1) \<and> scheduledCount storeA1 (s_id slotA1) = 1
   \<and> capacity slotA1 = 1
   \<and> scheduledCount storeA1 (s_id slotA1) \<le> capacity slotA1
   \<and> set [slotA1, slotA2] \<subseteq> set (slots storeA1)
   \<and> emergencyPass storeA1 reqEmergency ''EMERGENCY'' 5 [slotA1, slotA2] = Some (tokE1, storeD)
   \<and> slotA2 \<in> set (slots storeD) \<and> scheduledCount storeD (s_id slotA2) = 1
   \<and> scheduledCount storeD (s_id slotA2) \<le> capacity slotA2"
proof -
  have m1: "slotA1 \<in> set (slots storeA1)" by (simp add: storeA1_def)
  have m2: "slotA2 \<in> set (slots storeD)" by (simp add: storeD_def)
  have sub: "set [slotA1, slotA2] \<subseteq> set (slots storeA1)" by (simp add: storeA1_def)
  have c1: "scheduledCount storeA1 (s_id slotA1) = 1" "capacity slotA1 = 1"
    "scheduledCount storeD (s_id slotA2) = 1" by code_simp+
  note T = capacity_invariant[OF reachable_storeA1]
  have a: "scheduledCount storeA1 (s_id slotA1) \<le> capacity slotA1"
    using T[THEN conjunct1] m1 by blast
  have b: "scheduledCount storeD (s_id slotA2) \<le> capacity slotA2"
    using T[THEN conjunct2, rule_format, of "[slotA1, slotA2]" reqEmergency "''EMERGENCY''" 5 tokE1 storeD]
      sub emergencyPass_storeA1 m2 by blast
  show ?thesis
    using reachable_storeA1 m1 m2 sub c1 a b emergencyPass_storeA1 by blast
qed

section \<open>The schedule view\<close>

text \<open>
  \<open>getSchedule\<close> reads the store and returns no store. The \<open>booked\<close> count of a view is the
  number of SCHEDULED tokens of its slot, so in a reachable store no view is booked beyond
  its capacity.
\<close>

lemma getSchedule_booked:
  "map (\<lambda>v. (v_slotId v, v_capacity v, booked v)) (getSchedule st doctorId date) =
     map (\<lambda>sl. (s_id sl, capacity sl, scheduledCount st (s_id sl)))
       (getSlotsForDoctorDay st doctorId date)"
  by (simp add: getSchedule_def Let_def length_getTokensForSlot)

lemma getSchedule_within_capacity:
  assumes "reachable st" and "v \<in> set (getSchedule st doctorId date)"
  shows "booked v \<le> v_capacity v"
proof -
  from assms(2) obtain sl where sl: "sl \<in> set (getSlotsForDoctorDay st doctorId date)"
    and v: "booked v = scheduledCount st (s_id sl)" "v_capacity v = capacity sl"
    by (auto simp: getSchedule_def Let_def length_getTokensForSlot)
  have "sl \<in> set (slots st)" using sl getSlotsForDoctorDay_subset by blast
  then show ?thesis using reachable_storeInv[OF assms(1)] v by (simp add: storeInv_def)
qed

section \<open>Displacement\<close>

lemma last_sort_key:
  assumes "xs \<noteq> []"
  shows "last (sort_key f xs) \<in> set xs \<and> (\<forall>x\<in>set xs. f x \<le> f (last (sort_key f xs)))"
proof -
  let ?ys = "sort_key f xs"
  have ne: "?ys \<noteq> []" using assms by (metis length_sort length_0_conv)
  have s: "sorted (map f ?ys)" by (rule sorted_sort_key)
  have "\<forall>x\<in>set ?ys. f x \<le> f (last ?ys)"
  proof
    fix x assume "x \<in> set ?ys"
    then obtain i where i: "i < length ?ys" "x = ?ys ! i" by (metis in_set_conv_nth)
    have "map f ?ys ! i \<le> map f ?ys ! (length ?ys - 1)"
      using i(1) by (intro sorted_nth_mono[OF s]) auto
    then show "f x \<le> f (last ?ys)" using i ne by (simp add: last_conv_nth)
  qed
  moreover have "last ?ys \<in> set ?ys" using ne by (rule last_in_set)
  moreover have "set ?ys = set xs" by simp
  ultimately show ?thesis by blast
qed

lemma getTokensForSlot_last_isLowest:
  assumes "getTokensForSlot st slotId \<noteq> []"
  shows "isLowest st slotId (last (getTokensForSlot st slotId))"
proof -
  let ?P = "\<lambda>i. t_slotId (tokens st ! i) = slotId \<and> status (tokens st ! i) = SCHEDULED"
  let ?f = "\<lambda>i. - priorityScore (tokens st ! i)"
  let ?xs = "filter ?P [0..<length (tokens st)]"
  have g: "getTokensForSlot st slotId = sort_key ?f ?xs" by (simp add: getTokensForSlot_def)
  have ne: "?xs \<noteq> []" using assms unfolding g by auto
  note l = last_sort_key[OF ne, of ?f, folded g]
  have lin: "last (getTokensForSlot st slotId) \<in> set ?xs" using l by blast
  have "\<forall>i < length (tokens st). ?P i \<longrightarrow>
          priorityScore (tokens st ! last (getTokensForSlot st slotId)) \<le> priorityScore (tokens st ! i)"
  proof (intro allI impI)
    fix i assume "i < length (tokens st)" "?P i"
    then have "i \<in> set ?xs" by simp
    with l have "?f i \<le> ?f (last (getTokensForSlot st slotId))" by blast
    then show "priorityScore (tokens st ! last (getTokensForSlot st slotId)) \<le> priorityScore (tokens st ! i)"
      by simp
  qed
  then show ?thesis using lin by (simp add: isLowest_def)
qed

text \<open>
  What the emergency path does to the tokens, on any store: it appends the new token,
  and before that it may reassign one token, a lowest-priority SCHEDULED token of a slot
  of the list, of a score below the score of the request.
\<close>

lemma emergencyPass_effect:
  assumes "emergencyPass st r src score day = Some (tok, st')"
  shows "tokens st' = tokens st @ [tok]
         \<or> (\<exists>sl\<in>set day. \<exists>low target.
               isLowest st (s_id sl) low \<and> priorityScore (tokens st ! low) < score
               \<and> tokens st' = (tokens st)[low := (tokens st ! low)\<lparr>t_slotId := target\<rparr>] @ [tok])"
  using assms
proof (induction day)
  case Nil
  then show ?case by simp
next
  case (Cons sl later)
  let ?scheduled = "getTokensForSlot st (s_id sl)"
  show ?case
  proof (cases "length ?scheduled < capacity sl")
    case True
    then have "(tok, st') = createTokenInSlot st r src score sl"
      using Cons.prems by (simp add: Let_def)
    then have "tokens st' = tokens st @ [tok]"
      by (auto simp: createTokenInSlot_def Let_def)
    then show ?thesis by simp
  next
    case full: False
    show ?thesis
    proof (cases "?scheduled = [] \<or> score \<le> priorityScore (tokens st ! last ?scheduled)")
      case True
      then have "emergencyPass st r src score later = Some (tok, st')"
        using Cons.prems full by (auto simp: Let_def)
      from Cons.IH[OF this] show ?thesis by auto
    next
      case bump: False
      show ?thesis
      proof (cases "firstFree st later")
        case None
        then have "emergencyPass st r src score later = Some (tok, st')"
          using Cons.prems full bump by (auto simp: Let_def)
        from Cons.IH[OF this] show ?thesis by auto
      next
        case (Some laterSlot)
        let ?low = "last ?scheduled"
        have "(tok, st') = createTokenInSlot
                (updateToken st ?low (\<lambda>t. t\<lparr>t_slotId := s_id laterSlot\<rparr>)) r src score sl"
          using Cons.prems full bump Some by (auto simp: Let_def)
        then have tk: "tokens st' =
            (tokens st)[?low := (tokens st ! ?low)\<lparr>t_slotId := s_id laterSlot\<rparr>] @ [tok]"
          by (auto simp: createTokenInSlot_def updateToken_def Let_def)
        have "isLowest st (s_id sl) ?low"
          using bump by (intro getTokensForSlot_last_isLowest) simp
        moreover have "priorityScore (tokens st ! ?low) < score" using bump by simp
        ultimately show ?thesis using tk by auto
      qed
    qed
  qed
qed

text \<open>A call of \<open>allocateToken\<close> changes no token that is in the store: it appends at most one.\<close>

lemma allocateToken_tokens:
  assumes "allocateToken st r = Some (res, st')"
  shows "tokens st' = tokens st \<or> (\<exists>tok. res = Inr (Some tok) \<and> tokens st' = tokens st @ [tok])"
  using assms
proof (cases rule: allocateToken_cases)
  case invalid
  then show ?thesis by simp
next
  case (no_doctor src)
  then show ?thesis by simp
next
  case (full src doctor generated st1)
  then show ?thesis using generateSlotsForDay_tokens[OF full(4)] by simp
next
  case (placed src doctor generated st1 sl)
  then show ?thesis using generateSlotsForDay_tokens[OF placed(4)]
    by (simp add: createTokenInSlot_fields)
qed

lemma allocateToken_keeps_tokens:
  assumes "allocateToken st r = Some (res, st')" "i < length (tokens st)"
  shows "i < length (tokens st') \<and> tokens st' ! i = tokens st ! i"
  using allocateToken_tokens[OF assms(1)] assms(2) by (auto simp: nth_append)

lemma alloc_storeE_emergency:
  "allocateToken storeE reqEmergency = Some (Inr None, storeE)"
  by code_simp

text \<open>
  Claim C5. A call of \<open>allocateToken\<close> never changes the \<open>slotId\<close> of a token in the store
  whose score is at least the score of the request (the score of the effective source).
  The emergency path, on any store and any list of slots, changes the \<open>slotId\<close> of a token
  only if the token is a lowest-priority SCHEDULED token of one of the slots and its
  score is strictly below the score of the emergency.
\<close>

theorem displacement_refusal:
  "(\<forall>i src. allocateToken st r = Some (res, st') \<and> i < length (tokens st)
        \<and> effectiveSource r = Some src
        \<and> getPriorityScore src \<le> priorityScore (tokens st ! i) \<longrightarrow>
        i < length (tokens st') \<and> t_slotId (tokens st' ! i) = t_slotId (tokens st ! i))
   \<and> (\<forall>i. emergencyPass st r src' score day = Some (tok, st'') \<and> i < length (tokens st)
        \<and> t_slotId (tokens st'' ! i) \<noteq> t_slotId (tokens st ! i) \<longrightarrow>
        priorityScore (tokens st ! i) < score
        \<and> (\<exists>sl\<in>set day. isLowest st (s_id sl) i))"
proof (intro conjI allI impI)
  fix i src
  assume a: "allocateToken st r = Some (res, st') \<and> i < length (tokens st)
        \<and> effectiveSource r = Some src
        \<and> getPriorityScore src \<le> priorityScore (tokens st ! i)"
  then have "i < length (tokens st') \<and> tokens st' ! i = tokens st ! i"
    using allocateToken_keeps_tokens by blast
  then show "i < length (tokens st')" "t_slotId (tokens st' ! i) = t_slotId (tokens st ! i)"
    by simp_all
next
  fix i
  assume a: "emergencyPass st r src' score day = Some (tok, st'') \<and> i < length (tokens st)
        \<and> t_slotId (tokens st'' ! i) \<noteq> t_slotId (tokens st ! i)"
  then have e: "emergencyPass st r src' score day = Some (tok, st'')"
    and i: "i < length (tokens st)"
    and ch: "t_slotId (tokens st'' ! i) \<noteq> t_slotId (tokens st ! i)" by blast+
  from emergencyPass_effect[OF e]
  have "priorityScore (tokens st ! i) < score \<and> (\<exists>sl\<in>set day. isLowest st (s_id sl) i)"
  proof
    assume "tokens st'' = tokens st @ [tok]"
    with i ch show ?thesis by (simp add: nth_append)
  next
    assume "\<exists>sl\<in>set day. \<exists>low target.
               isLowest st (s_id sl) low \<and> priorityScore (tokens st ! low) < score
               \<and> tokens st'' = (tokens st)[low := (tokens st ! low)\<lparr>t_slotId := target\<rparr>] @ [tok]"
    then obtain sl low target where sl: "sl \<in> set day" and lo: "isLowest st (s_id sl) low"
      and sc: "priorityScore (tokens st ! low) < score"
      and tk: "tokens st'' = (tokens st)[low := (tokens st ! low)\<lparr>t_slotId := target\<rparr>] @ [tok]"
      by blast
    have "i = low"
    proof (rule ccontr)
      assume "i \<noteq> low"
      then have "tokens st'' ! i = tokens st ! i" using tk i by (simp add: nth_append)
      with ch show False by simp
    qed
    with sl lo sc show ?thesis by blast
  qed
  then show "priorityScore (tokens st ! i) < score" "\<exists>sl\<in>set day. isLowest st (s_id sl) i"
    by simp_all
qed

lemma alloc_storeF_emergency:
  "allocateToken storeF reqEmergency = Some (Inr (Some tokE2), storeF2)"
  by code_simp

lemma emergencyPass_storeF:
  "emergencyPass storeF reqEmergency ''EMERGENCY'' 5 [slotA1, slotA2] = Some (tokE2, storeF2)"
  by code_simp

theorem displacement_refusal_witness:
  "allocateToken storeF reqEmergency = Some (Inr (Some tokE2), storeF2)
   \<and> effectiveSource reqEmergency = Some ''EMERGENCY''
   \<and> getPriorityScore ''EMERGENCY'' \<le> priorityScore (tokens storeF ! 0)
   \<and> t_slotId (tokens storeF2 ! 0) = t_slotId (tokens storeF ! 0)
   \<and> emergencyPass storeF reqEmergency ''EMERGENCY'' 5 [slotA1, slotA2] = Some (tokE2, storeF2)
   \<and> emergencyPass storeA1 reqEmergency ''EMERGENCY'' 5 [slotA1, slotA2] = Some (tokE1, storeD)
   \<and> t_slotId (tokens storeD ! 0) = 11 \<and> t_slotId (tokens storeA1 ! 0) = 10
   \<and> priorityScore (tokens storeA1 ! 0) < 5
   \<and> (\<exists>sl\<in>set [slotA1, slotA2]. isLowest storeA1 (s_id sl) 0)"
proof -
  have e: "effectiveSource reqEmergency = Some ''EMERGENCY''" by code_simp
  have v: "t_slotId (tokens storeD ! 0) = 11"
    "t_slotId (tokens storeA1 ! 0) = 10" "(0::nat) < length (tokens storeA1)"
    "(0::nat) < length (tokens storeF)"
    by (simp_all add: storeA1_def storeD_def storeF_def tokW1_def)
  have le: "getPriorityScore ''EMERGENCY'' \<le> priorityScore (tokens storeF ! 0)"
    by (simp add: getPriorityScore_EMERGENCY storeF_def tokE_def)
  note T = displacement_refusal[of storeF reqEmergency "Inr (Some tokE2)" storeF2
      "''EMERGENCY''" 5 "[slotA1, slotA2]" tokE2 storeF2]
  have p1: "t_slotId (tokens storeF2 ! 0) = t_slotId (tokens storeF ! 0)"
    using T[THEN conjunct1, rule_format, of 0 "''EMERGENCY''"] alloc_storeF_emergency v(4) e le
    by blast
  note T' = displacement_refusal[of storeA1 reqEmergency "Inr (Some tokE2)" storeE
      "''EMERGENCY''" 5 "[slotA1, slotA2]" tokE1 storeD]
  have ch: "t_slotId (tokens storeD ! 0) \<noteq> t_slotId (tokens storeA1 ! 0)" using v by simp
  have p2: "priorityScore (tokens storeA1 ! 0) < 5
            \<and> (\<exists>sl\<in>set [slotA1, slotA2]. isLowest storeA1 (s_id sl) 0)"
    using T'[THEN conjunct2, rule_format, of 0] emergencyPass_storeA1 v(3) ch by blast
  show ?thesis
    using alloc_storeF_emergency e le p1 emergencyPass_storeF emergencyPass_storeA1 v(1,2) p2
    by blast
qed


section \<open>Earliest fit: the claim\<close>

lemma freshSlots_docZ: "freshSlots docZ day0 10 = [slotZ1, slotZ2]"
  by code_simp

lemma generate_storeZ: "generateSlotsForDay storeZ docZ day0 = Some ([slotZ1, slotZ2], storeZ1)"
  by (simp add: generateSlotsForDay_eq existingSlots_def storeZ_def storeZ1_def freshSlots_docZ)
     (simp add: docZ_def)

lemma alloc_storeZ: "allocateToken storeZ reqZ = Some (Inr None, storeZ1)"
proof -
  have e: "effectiveSource reqZ = Some ''WALK_IN''" by code_simp
  have v: "''WALK_IN'' \<in> set tokenSources" by (simp add: tokenSources_def)
  have d: "getDoctorById storeZ (r_doctorId reqZ) = Some docZ" by code_simp
  have da: "r_date reqZ = day0" by (simp add: reqZ_def)
  have f: "firstFree storeZ1 (getSlotsForDoctorDay storeZ1 (r_doctorId reqZ) day0) = None"
    by code_simp
  show ?thesis
    unfolding allocateToken_eq[OF e v d] da generate_storeZ using f by simp
qed

lemma reachable_storeA2: "reachable storeA2"
  using reachable_storeA1 alloc_storeA1_walkin by (rule reachable.allocate)

text \<open>
  Claim C3, as stated, fails. Doctor Z exists and has capacity 0, and \<open>storeZ\<close> (reachable:
  it has no slots and no tokens) holds no slot of the day. A walk-in call generates the
  two slots of the day, finds none with free capacity and returns \<^verbatim>\<open>null\<close>; the slots stay
  in the store, which is not the store before the call.
\<close>

theorem earliest_fit_counterexample:
  "\<not> r_emergency reqZ \<and> r_source reqZ = Some ''WALK_IN'' \<and> ''WALK_IN'' \<in> set tokenSources
   \<and> getDoctorById storeZ (r_doctorId reqZ) = Some docZ
   \<and> reachable storeZ
   \<and> slots storeZ = []
   \<and> getSlotsForDoctorDay storeZ1 (r_doctorId reqZ) (r_date reqZ) = [slotZ1, slotZ2]
   \<and> \<not> hasFree storeZ1 slotZ1 \<and> \<not> hasFree storeZ1 slotZ2
   \<and> allocateToken storeZ reqZ = Some (Inr None, storeZ1)
   \<and> slots storeZ1 = [slotZ1, slotZ2]
   \<and> storeZ1 \<noteq> storeZ"
proof -
  have a: "\<not> r_emergency reqZ" "r_source reqZ = Some ''WALK_IN''"
    "slots storeZ = []" "slots storeZ1 = [slotZ1, slotZ2]" "storeZ1 \<noteq> storeZ"
    by (simp_all add: reqZ_def storeZ_def storeZ1_def)
  have b: "''WALK_IN'' \<in> set tokenSources" by (simp add: tokenSources_def)
  have c: "getDoctorById storeZ (r_doctorId reqZ) = Some docZ" by code_simp
  have d: "reachable storeZ" by (rule reachable.initial) (simp_all add: storeZ_def)
  have e: "getSlotsForDoctorDay storeZ1 (r_doctorId reqZ) (r_date reqZ) = [slotZ1, slotZ2]"
    by code_simp
  have f: "\<not> hasFree storeZ1 slotZ1" "\<not> hasFree storeZ1 slotZ2" by code_simp+
  show ?thesis using a b c d e f alloc_storeZ by blast
qed

text \<open>
  Claim C3, amended. A call that is not an emergency, with a known source and an existing
  doctor of positive slot duration, first makes sure the slots of the day exist, which
  changes no token and no doctor, and changes nothing when slots of the day are in the
  store. The slots of the day are scanned in chronological order (ascending start time).
  If some slot of the day has free capacity, the token is created in the first such slot
  of that sequence, and nothing else changes. If no slot of the day has free capacity,
  the call returns \<^verbatim>\<open>null\<close>, creates and changes no token, and leaves the store as the slot
  generation left it; that is the store before the call when the store is reachable and
  the capacity of the doctor is positive (then a day whose slots were just generated has
  a free slot).
\<close>

theorem earliest_fit:
  assumes "\<not> r_emergency r" and "r_source r = Some src" and "src \<in> set tokenSources"
      and "getDoctorById st (r_doctorId r) = Some doctor"
      and "0 < slotDurationMinutes doctor"
  shows "\<exists>generated st1.
           generateSlotsForDay st doctor (r_date r) = Some (generated, st1)
           \<and> tokens st1 = tokens st \<and> doctors st1 = doctors st
           \<and> (existingSlots st (r_doctorId r) (r_date r) \<noteq> [] \<longrightarrow> st1 = st)
           \<and> isDaySequence st1 (r_doctorId r) (r_date r)
                 (getSlotsForDoctorDay st1 (r_doctorId r) (r_date r))
           \<and> (\<forall>k < length (getSlotsForDoctorDay st1 (r_doctorId r) (r_date r)).
                 hasFree st1 (getSlotsForDoctorDay st1 (r_doctorId r) (r_date r) ! k)
                 \<and> (\<forall>j<k. \<not> hasFree st1 (getSlotsForDoctorDay st1 (r_doctorId r) (r_date r) ! j))
                 \<longrightarrow>
                 allocateToken st r =
                   Some (Inr (Some
                     \<lparr>t_id = nanoid_next st1, t_doctorId = r_doctorId r,
                      t_slotId = s_id (getSlotsForDoctorDay st1 (r_doctorId r) (r_date r) ! k),
                      t_date = r_date r, patientName = r_patientName r, source = src,
                      priorityScore = getPriorityScore src, status = SCHEDULED\<rparr>),
                     st1\<lparr>tokens := tokens st1 @
                        [\<lparr>t_id = nanoid_next st1, t_doctorId = r_doctorId r,
                          t_slotId = s_id (getSlotsForDoctorDay st1 (r_doctorId r) (r_date r) ! k),
                          t_date = r_date r, patientName = r_patientName r, source = src,
                          priorityScore = getPriorityScore src, status = SCHEDULED\<rparr>],
                        nanoid_next := Suc (nanoid_next st1)\<rparr>))
           \<and> ((\<forall>sl \<in> set (getSlotsForDoctorDay st1 (r_doctorId r) (r_date r)). \<not> hasFree st1 sl)
                 \<longrightarrow> allocateToken st r = Some (Inr None, st1)
                     \<and> (reachable st \<and> 0 < maxPatientsPerSlot doctor \<longrightarrow> st1 = st))"
proof -
  have eff: "effectiveSource r = Some src" using assms(1,2) by (simp add: effectiveSource_def)
  have did: "d_id doctor = r_doctorId r" using getDoctorById_Some[OF assms(4)] by simp
  obtain generated st1 where g: "generateSlotsForDay st doctor (r_date r) = Some (generated, st1)"
    using generateSlotsForDay_returns[OF assms(5)] by blast
  let ?day = "getSlotsForDoctorDay st1 (r_doctorId r) (r_date r)"
  note eq = allocateToken_eq[OF eff assms(3,4), unfolded g, simplified]
  have tk: "tokens st1 = tokens st" and dk: "doctors st1 = doctors st"
    using generateSlotsForDay_tokens[OF g] by simp_all
  have ex: "existingSlots st (r_doctorId r) (r_date r) \<noteq> [] \<longrightarrow> st1 = st"
    using g did by (auto simp: generateSlotsForDay_eq)
  have seq: "isDaySequence st1 (r_doctorId r) (r_date r) ?day"
    by (rule getSlotsForDoctorDay_isDaySequence)
  have A: "\<forall>k < length ?day. hasFree st1 (?day ! k) \<and> (\<forall>j<k. \<not> hasFree st1 (?day ! j)) \<longrightarrow>
             allocateToken st r =
                   Some (Inr (Some
                     \<lparr>t_id = nanoid_next st1, t_doctorId = r_doctorId r,
                      t_slotId = s_id (?day ! k),
                      t_date = r_date r, patientName = r_patientName r, source = src,
                      priorityScore = getPriorityScore src, status = SCHEDULED\<rparr>),
                     st1\<lparr>tokens := tokens st1 @
                        [\<lparr>t_id = nanoid_next st1, t_doctorId = r_doctorId r,
                          t_slotId = s_id (?day ! k),
                          t_date = r_date r, patientName = r_patientName r, source = src,
                          priorityScore = getPriorityScore src, status = SCHEDULED\<rparr>],
                        nanoid_next := Suc (nanoid_next st1)\<rparr>)"
  proof (intro allI impI)
    fix k assume k: "k < length ?day"
      and h: "hasFree st1 (?day ! k) \<and> (\<forall>j<k. \<not> hasFree st1 (?day ! j))"
    then have "firstFree st1 ?day = Some (?day ! k)"
      unfolding firstFree_Some_iff by blast
    then show "allocateToken st r =
                   Some (Inr (Some
                     \<lparr>t_id = nanoid_next st1, t_doctorId = r_doctorId r,
                      t_slotId = s_id (?day ! k),
                      t_date = r_date r, patientName = r_patientName r, source = src,
                      priorityScore = getPriorityScore src, status = SCHEDULED\<rparr>),
                     st1\<lparr>tokens := tokens st1 @
                        [\<lparr>t_id = nanoid_next st1, t_doctorId = r_doctorId r,
                          t_slotId = s_id (?day ! k),
                          t_date = r_date r, patientName = r_patientName r, source = src,
                          priorityScore = getPriorityScore src, status = SCHEDULED\<rparr>],
                        nanoid_next := Suc (nanoid_next st1)\<rparr>)"
      unfolding eq by (simp add: createTokenInSlot_def Let_def)
  qed
  have B: "(\<forall>sl \<in> set ?day. \<not> hasFree st1 sl) \<longrightarrow>
             allocateToken st r = Some (Inr None, st1)
             \<and> (reachable st \<and> 0 < maxPatientsPerSlot doctor \<longrightarrow> st1 = st)"
  proof (intro impI conjI)
    assume "\<forall>sl \<in> set ?day. \<not> hasFree st1 sl"
    then have ff: "firstFree st1 ?day = None" by (simp add: firstFree_None_iff)
    show "allocateToken st r = Some (Inr None, st1)"
      unfolding eq using ff by simp
    assume c: "reachable st \<and> 0 < maxPatientsPerSlot doctor"
    then have ids: "\<forall>t\<in>set (tokens st). t_slotId t < nanoid_next st"
      using reachable_storeInv[of st] by (simp add: storeInv_def)
    show "st1 = st"
      using full_day_store_unchanged[OF g _ c[THEN conjunct2] ids] ff did by simp
  qed
  from g tk dk ex seq A B show ?thesis by blast
qed

theorem earliest_fit_witness:
  "\<not> r_emergency reqWalkIn \<and> r_source reqWalkIn = Some ''WALK_IN''
   \<and> ''WALK_IN'' \<in> set tokenSources
   \<and> getDoctorById storeA1 (r_doctorId reqWalkIn) = Some docA
   \<and> getDoctorById storeA2 (r_doctorId reqWalkIn) = Some docA
   \<and> 0 < slotDurationMinutes docA \<and> 0 < maxPatientsPerSlot docA
   \<and> reachable storeA2
   \<and> existingSlots storeA1 (r_doctorId reqWalkIn) (r_date reqWalkIn) \<noteq> []
   \<and> generateSlotsForDay storeA1 docA (r_date reqWalkIn) = Some ([slotA1, slotA2], storeA1)
   \<and> getSlotsForDoctorDay storeA1 (r_doctorId reqWalkIn) (r_date reqWalkIn) = [slotA1, slotA2]
   \<and> isDaySequence storeA1 (r_doctorId reqWalkIn) (r_date reqWalkIn) [slotA1, slotA2]
   \<and> \<not> hasFree storeA1 slotA1 \<and> hasFree storeA1 slotA2
   \<and> allocateToken storeA1 reqWalkIn = Some (Inr (Some tokW2), storeA2)
   \<and> \<not> hasFree storeA2 slotA1 \<and> \<not> hasFree storeA2 slotA2
   \<and> allocateToken storeA2 reqWalkIn = Some (Inr None, storeA2)"
proof -
  have h1: "\<not> r_emergency reqWalkIn" by (simp add: reqWalkIn_def)
  have h2: "r_source reqWalkIn = Some ''WALK_IN''" by (simp add: reqWalkIn_def)
  have h3: "''WALK_IN'' \<in> set tokenSources" by (simp add: tokenSources_def)
  have h4: "getDoctorById storeA1 (r_doctorId reqWalkIn) = Some docA" by code_simp
  have h4': "getDoctorById storeA2 (r_doctorId reqWalkIn) = Some docA" by code_simp
  have h5: "0 < slotDurationMinutes docA" by (simp add: docA_def)
  have h6: "0 < maxPatientsPerSlot docA" by (simp add: docA_def)
  have ne: "existingSlots storeA1 (r_doctorId reqWalkIn) (r_date reqWalkIn) \<noteq> []" by code_simp
  have gen: "generateSlotsForDay storeA1 docA (r_date reqWalkIn) = Some ([slotA1, slotA2], storeA1)"
    by code_simp
  have e1: "getSlotsForDoctorDay storeA1 (r_doctorId reqWalkIn) (r_date reqWalkIn) = [slotA1, slotA2]"
    by code_simp
  have e2: "\<not> hasFree storeA1 slotA1" "hasFree storeA1 slotA2"
           "\<not> hasFree storeA2 slotA1" "\<not> hasFree storeA2 slotA2" by code_simp+
  from earliest_fit[OF h1 h2 h3 h4 h5] gen
  have seq: "isDaySequence storeA1 (r_doctorId reqWalkIn) (r_date reqWalkIn) [slotA1, slotA2]"
    unfolding e1[symmetric] by auto
  note t2 = earliest_fit[OF h1 h2 h3 h4' h5]
  show ?thesis
    using h1 h2 h3 h4 h4' h5 h6 reachable_storeA2 ne gen e1 seq e2 t2
      alloc_storeA1_walkin alloc_storeA2_walkin
    by blast
qed

section \<open>Emergency displacement: the claim\<close>

text \<open>
  What \<open>allocateToken\<close> does with an emergency, on every store: with a free slot in the day
  the token is created in the first free slot and no stored token is moved; with none the
  call returns \<^verbatim>\<open>null\<close>.
\<close>

lemma emergency_first_free:
  assumes "r_emergency r" and "getDoctorById st (r_doctorId r) = Some doctor"
      and "0 < slotDurationMinutes doctor"
  shows "\<exists>generated st1.
           generateSlotsForDay st doctor (r_date r) = Some (generated, st1)
           \<and> tokens st1 = tokens st
           \<and> (\<forall>k < length (getSlotsForDoctorDay st1 (r_doctorId r) (r_date r)).
                 hasFree st1 (getSlotsForDoctorDay st1 (r_doctorId r) (r_date r) ! k)
                 \<and> (\<forall>j<k. \<not> hasFree st1 (getSlotsForDoctorDay st1 (r_doctorId r) (r_date r) ! j))
                 \<longrightarrow>
                 allocateToken st r =
                   Some (Inr (Some
                     \<lparr>t_id = nanoid_next st1, t_doctorId = r_doctorId r,
                      t_slotId = s_id (getSlotsForDoctorDay st1 (r_doctorId r) (r_date r) ! k),
                      t_date = r_date r, patientName = r_patientName r, source = ''EMERGENCY'',
                      priorityScore = 5, status = SCHEDULED\<rparr>),
                     st1\<lparr>tokens := tokens st @
                        [\<lparr>t_id = nanoid_next st1, t_doctorId = r_doctorId r,
                          t_slotId = s_id (getSlotsForDoctorDay st1 (r_doctorId r) (r_date r) ! k),
                          t_date = r_date r, patientName = r_patientName r, source = ''EMERGENCY'',
                          priorityScore = 5, status = SCHEDULED\<rparr>],
                        nanoid_next := Suc (nanoid_next st1)\<rparr>))
           \<and> ((\<forall>sl \<in> set (getSlotsForDoctorDay st1 (r_doctorId r) (r_date r)). \<not> hasFree st1 sl)
                 \<longrightarrow> allocateToken st r = Some (Inr None, st1))"
proof -
  have eff: "effectiveSource r = Some ''EMERGENCY''" using assms(1) by (simp add: effectiveSource_def)
  have valid: "''EMERGENCY'' \<in> set tokenSources" by (simp add: tokenSources_def)
  obtain generated st1 where g: "generateSlotsForDay st doctor (r_date r) = Some (generated, st1)"
    using generateSlotsForDay_returns[OF assms(3)] by blast
  let ?day = "getSlotsForDoctorDay st1 (r_doctorId r) (r_date r)"
  note eq = allocateToken_eq[OF eff valid assms(2), unfolded g, simplified]
  have tk: "tokens st1 = tokens st" using generateSlotsForDay_tokens[OF g] by simp
  have A: "\<forall>k < length ?day. hasFree st1 (?day ! k) \<and> (\<forall>j<k. \<not> hasFree st1 (?day ! j)) \<longrightarrow>
             allocateToken st r =
                   Some (Inr (Some
                     \<lparr>t_id = nanoid_next st1, t_doctorId = r_doctorId r,
                      t_slotId = s_id (?day ! k),
                      t_date = r_date r, patientName = r_patientName r, source = ''EMERGENCY'',
                      priorityScore = 5, status = SCHEDULED\<rparr>),
                     st1\<lparr>tokens := tokens st @
                        [\<lparr>t_id = nanoid_next st1, t_doctorId = r_doctorId r,
                          t_slotId = s_id (?day ! k),
                          t_date = r_date r, patientName = r_patientName r, source = ''EMERGENCY'',
                          priorityScore = 5, status = SCHEDULED\<rparr>],
                        nanoid_next := Suc (nanoid_next st1)\<rparr>)"
  proof (intro allI impI)
    fix k assume k: "k < length ?day"
      and h: "hasFree st1 (?day ! k) \<and> (\<forall>j<k. \<not> hasFree st1 (?day ! j))"
    then have "firstFree st1 ?day = Some (?day ! k)"
      unfolding firstFree_Some_iff by blast
    then show "allocateToken st r =
                   Some (Inr (Some
                     \<lparr>t_id = nanoid_next st1, t_doctorId = r_doctorId r,
                      t_slotId = s_id (?day ! k),
                      t_date = r_date r, patientName = r_patientName r, source = ''EMERGENCY'',
                      priorityScore = 5, status = SCHEDULED\<rparr>),
                     st1\<lparr>tokens := tokens st @
                        [\<lparr>t_id = nanoid_next st1, t_doctorId = r_doctorId r,
                          t_slotId = s_id (?day ! k),
                          t_date = r_date r, patientName = r_patientName r, source = ''EMERGENCY'',
                          priorityScore = 5, status = SCHEDULED\<rparr>],
                        nanoid_next := Suc (nanoid_next st1)\<rparr>)"
      unfolding eq by (simp add: createTokenInSlot_def Let_def tk getPriorityScore_EMERGENCY)
  qed
  have B: "(\<forall>sl \<in> set ?day. \<not> hasFree st1 sl) \<longrightarrow> allocateToken st r = Some (Inr None, st1)"
  proof
    assume "\<forall>sl \<in> set ?day. \<not> hasFree st1 sl"
    then have ff: "firstFree st1 ?day = None" by (simp add: firstFree_None_iff)
    show "allocateToken st r = Some (Inr None, st1)"
      unfolding eq using ff by simp
  qed
  from g tk A B show ?thesis by blast
qed


end
